theory Spec2Isabelle
  imports Main "HOL-Library.Word"
begin

unbundle bit_operations_syntax

section \<open>JavaScript strings\<close>

text \<open>
  A JavaScript string is a sequence of UTF-16 code units. String literals of the source
  are ASCII and are written \<open>js ''MESSAGES''\<close>.
\<close>

type_synonym code_unit = "16 word"
type_synonym jsstring = "code_unit list"

definition js :: "string \<Rightarrow> jsstring" where
  "js s = map of_char s"

definition is_lead :: "code_unit \<Rightarrow> bool" where
  "is_lead c \<longleftrightarrow> 0xD800 \<le> c \<and> c \<le> 0xDBFF"

definition is_trail :: "code_unit \<Rightarrow> bool" where
  "is_trail c \<longleftrightarrow> 0xDC00 \<le> c \<and> c \<le> 0xDFFF"

text \<open>
  A string is well formed when every surrogate code unit is part of a pair (a leading
  surrogate directly followed by a trailing one). Exactly these strings have a UTF-8
  encoding.
\<close>

fun well_formed :: "jsstring \<Rightarrow> bool" where
  "well_formed [] = True"
| "well_formed [c] = (\<not> is_lead c \<and> \<not> is_trail c)"
| "well_formed (c # d # cs) =
     (if is_lead c \<and> is_trail d then well_formed cs
      else \<not> is_lead c \<and> \<not> is_trail c \<and> well_formed (d # cs))"

text \<open>
  Template literal \<open>`${n}`\<close> for a non-negative integer \<open>n\<close> below \<open>10^21\<close>
  (every value of \<open>Date.now()\<close> is): the decimal digits of \<open>n\<close>.
\<close>

function digits_acc :: "nat \<Rightarrow> jsstring \<Rightarrow> jsstring" where
  "digits_acc n acc =
     (if n < 10 then (0x30 + of_nat n) # acc
      else digits_acc (n div 10) ((0x30 + of_nat (n mod 10)) # acc))"
  by pat_completeness auto
termination
  by (relation "measure fst") auto

declare digits_acc.simps [simp del]

definition number_to_string :: "nat \<Rightarrow> jsstring" where
  "number_to_string n = digits_acc n []"

text \<open>The number a string of decimal digits denotes.\<close>

definition decimal_value :: "jsstring \<Rightarrow> nat" where
  "decimal_value s = foldl (\<lambda>a c. 10 * a + unat (c - 0x30)) 0 s"

section \<open>JSON.stringify and JSON.parse\<close>

datatype json =
    JNull
  | JBool bool
  | JNumber jsstring
  | JString jsstring
  | JArray "json list"
  | JObject "(jsstring \<times> json) list"

text \<open>
  Numbers are kept as their lexeme (the double they denote is not computed). An object is
  the list of its members in property order.
\<close>

subsection \<open>QuoteJSONString\<close>

definition hex_digit :: "code_unit \<Rightarrow> code_unit" where
  "hex_digit n = (if n < 10 then 0x30 + n else 0x61 + (n - 10))"

definition UnicodeEscape :: "code_unit \<Rightarrow> jsstring" where
  "UnicodeEscape c =
     [0x5C, 0x75, hex_digit (drop_bit 12 c AND 0xF), hex_digit (drop_bit 8 c AND 0xF),
      hex_digit (drop_bit 4 c AND 0xF), hex_digit (c AND 0xF)]"

text \<open>
  One code point that is a single code unit: the two-character escapes of the table
  (backspace, tab, line feed, form feed, carriage return, quotation mark, backslash), a
  \<open>\uXXXX\<close> escape for the other control characters and for a lone surrogate, the unit
  itself otherwise.
\<close>

definition quote_unit :: "code_unit \<Rightarrow> jsstring" where
  "quote_unit c =
     (if c = 0x08 then [0x5C, 0x62]
      else if c = 0x09 then [0x5C, 0x74]
      else if c = 0x0A then [0x5C, 0x6E]
      else if c = 0x0C then [0x5C, 0x66]
      else if c = 0x0D then [0x5C, 0x72]
      else if c = 0x22 then [0x5C, 0x22]
      else if c = 0x5C then [0x5C, 0x5C]
      else if c < 0x20 \<or> is_lead c \<or> is_trail c then UnicodeEscape c
      else [c])"

fun quote_units :: "jsstring \<Rightarrow> jsstring" where
  "quote_units [] = []"
| "quote_units [c] = quote_unit c"
| "quote_units (c # d # cs) =
     (if is_lead c \<and> is_trail d then c # d # quote_units cs
      else quote_unit c @ quote_units (d # cs))"

definition QuoteJSONString :: "jsstring \<Rightarrow> jsstring" where
  "QuoteJSONString s = 0x22 # quote_units s @ [0x22]"

subsection \<open>JSON.stringify (no replacer, no indentation)\<close>

fun join_comma :: "jsstring list \<Rightarrow> jsstring" where
  "join_comma [] = []"
| "join_comma [x] = x"
| "join_comma (x # y # ys) = x @ 0x2C # join_comma (y # ys)"

fun JSON_stringify :: "json \<Rightarrow> jsstring" where
  "JSON_stringify JNull = js ''null''"
| "JSON_stringify (JBool b) = (if b then js ''true'' else js ''false'')"
| "JSON_stringify (JNumber n) = n"
| "JSON_stringify (JString s) = QuoteJSONString s"
| "JSON_stringify (JArray vs) = 0x5B # join_comma (map JSON_stringify vs) @ [0x5D]"
| "JSON_stringify (JObject ms) =
     0x7B # join_comma (map (\<lambda>(k, v). QuoteJSONString k @ 0x3A # JSON_stringify v) ms) @ [0x7D]"

subsection \<open>JSON.parse\<close>

definition is_ws :: "code_unit \<Rightarrow> bool" where
  "is_ws c \<longleftrightarrow> c = 0x20 \<or> c = 0x09 \<or> c = 0x0A \<or> c = 0x0D"

definition skip_ws :: "jsstring \<Rightarrow> jsstring" where
  "skip_ws s = dropWhile is_ws s"

definition is_digit :: "code_unit \<Rightarrow> bool" where
  "is_digit c \<longleftrightarrow> 0x30 \<le> c \<and> c \<le> 0x39"

definition hex_value :: "code_unit \<Rightarrow> code_unit option" where
  "hex_value d =
     (if 0x30 \<le> d \<and> d \<le> 0x39 then Some (d - 0x30)
      else if 0x61 \<le> d \<and> d \<le> 0x66 then Some (d - 0x61 + 10)
      else if 0x41 \<le> d \<and> d \<le> 0x46 then Some (d - 0x41 + 10)
      else None)"

definition hex4 :: "code_unit \<Rightarrow> code_unit \<Rightarrow> code_unit \<Rightarrow> code_unit \<Rightarrow> code_unit option" where
  "hex4 a b c d =
     (case hex_value a of None \<Rightarrow> None | Some x \<Rightarrow>
      case hex_value b of None \<Rightarrow> None | Some y \<Rightarrow>
      case hex_value c of None \<Rightarrow> None | Some z \<Rightarrow>
      case hex_value d of None \<Rightarrow> None | Some w \<Rightarrow>
        Some (push_bit 12 x OR push_bit 8 y OR push_bit 4 z OR w))"

definition unescape :: "code_unit \<Rightarrow> code_unit option" where
  "unescape e =
     (if e = 0x22 then Some 0x22
      else if e = 0x5C then Some 0x5C
      else if e = 0x2F then Some 0x2F
      else if e = 0x62 then Some 0x08
      else if e = 0x66 then Some 0x0C
      else if e = 0x6E then Some 0x0A
      else if e = 0x72 then Some 0x0D
      else if e = 0x74 then Some 0x09
      else None)"

definition cons_result :: "'a \<Rightarrow> ('a list \<times> 'b) option \<Rightarrow> ('a list \<times> 'b) option" where
  "cons_result x r = (case r of None \<Rightarrow> None | Some (xs, rest) \<Rightarrow> Some (x # xs, rest))"

text \<open>
  The characters of a string literal after its opening quotation mark: the decoded string
  and the input after the closing quotation mark; \<open>None\<close> is a SyntaxError.
\<close>

fun parse_string_body :: "jsstring \<Rightarrow> (jsstring \<times> jsstring) option" where
  "parse_string_body [] = None"
| "parse_string_body (c # cs) =
     (if c = 0x22 then Some ([], cs)
      else if c = 0x5C then
        (case cs of
           [] \<Rightarrow> None
         | e # es \<Rightarrow>
             if e = 0x75 then
               (case es of
                  h1 # h2 # h3 # h4 # rest \<Rightarrow>
                    (case hex4 h1 h2 h3 h4 of
                       None \<Rightarrow> None
                     | Some u \<Rightarrow> cons_result u (parse_string_body rest))
                | _ \<Rightarrow> None)
             else
               (case unescape e of
                  None \<Rightarrow> None
                | Some u \<Rightarrow> cons_result u (parse_string_body es)))
      else if c < 0x20 then None
      else cons_result c (parse_string_body cs))"

text \<open>A number literal: its lexeme and the input after it.\<close>

definition take_digits :: "jsstring \<Rightarrow> (jsstring \<times> jsstring) option" where
  "take_digits s =
     (let ds = takeWhile is_digit s in
      if ds = [] then None else Some (ds, dropWhile is_digit s))"

definition parse_int_part :: "jsstring \<Rightarrow> (jsstring \<times> jsstring) option" where
  "parse_int_part s =
     (case s of
        [] \<Rightarrow> None
      | c # cs \<Rightarrow> if c = 0x30 then Some ([0x30], cs) else take_digits s)"

definition parse_frac_part :: "jsstring \<Rightarrow> (jsstring \<times> jsstring) option" where
  "parse_frac_part s =
     (case s of
        [] \<Rightarrow> Some ([], s)
      | c # cs \<Rightarrow>
          if c = 0x2E then
            (case take_digits cs of None \<Rightarrow> None | Some (ds, r) \<Rightarrow> Some (c # ds, r))
          else Some ([], s))"

definition parse_exp_part :: "jsstring \<Rightarrow> (jsstring \<times> jsstring) option" where
  "parse_exp_part s =
     (case s of
        [] \<Rightarrow> Some ([], s)
      | c # cs \<Rightarrow>
          if c = 0x65 \<or> c = 0x45 then
            (case cs of
               [] \<Rightarrow> None
             | g # gs \<Rightarrow>
                 if g = 0x2B \<or> g = 0x2D then
                   (case take_digits gs of None \<Rightarrow> None | Some (ds, r) \<Rightarrow> Some (c # g # ds, r))
                 else
                   (case take_digits cs of None \<Rightarrow> None | Some (ds, r) \<Rightarrow> Some (c # ds, r)))
          else Some ([], s))"

definition parse_number :: "jsstring \<Rightarrow> (jsstring \<times> jsstring) option" where
  "parse_number s =
     (let (sign, s0) = (case s of [] \<Rightarrow> ([], s) | c # cs \<Rightarrow> if c = 0x2D then ([c], cs) else ([], s)) in
      case parse_int_part s0 of None \<Rightarrow> None | Some (ip, s1) \<Rightarrow>
      case parse_frac_part s1 of None \<Rightarrow> None | Some (fp, s2) \<Rightarrow>
      case parse_exp_part s2 of None \<Rightarrow> None | Some (ep, s3) \<Rightarrow>
        Some (sign @ ip @ fp @ ep, s3))"

fun strip_prefix :: "jsstring \<Rightarrow> jsstring \<Rightarrow> jsstring option" where
  "strip_prefix [] s = Some s"
| "strip_prefix (p # ps) [] = None"
| "strip_prefix (p # ps) (c # cs) = (if p = c then strip_prefix ps cs else None)"

definition parse_literal :: "jsstring \<Rightarrow> (json \<times> jsstring) option" where
  "parse_literal s =
     (case strip_prefix (js ''true'') s of Some r \<Rightarrow> Some (JBool True, r) | None \<Rightarrow>
      case strip_prefix (js ''false'') s of Some r \<Rightarrow> Some (JBool False, r) | None \<Rightarrow>
      case strip_prefix (js ''null'') s of Some r \<Rightarrow> Some (JNull, r) | None \<Rightarrow> None)"

text \<open>
  The recursive descent over values, array elements and object members. The first
  argument bounds the number of nested calls; \<open>JSON_parse\<close> starts it at
  \<open>2 * length s + 2\<close>, which no input exhausts (shown below).
\<close>

fun parse_value :: "nat \<Rightarrow> jsstring \<Rightarrow> (json \<times> jsstring) option"
  and parse_elements :: "nat \<Rightarrow> jsstring \<Rightarrow> (json list \<times> jsstring) option"
  and parse_members :: "nat \<Rightarrow> jsstring \<Rightarrow> ((jsstring \<times> json) list \<times> jsstring) option"
where
  "parse_value 0 s = None"
| "parse_value (Suc n) s =
     (case skip_ws s of
        [] \<Rightarrow> None
      | c # cs \<Rightarrow>
          if c = 0x22 then
            (case parse_string_body cs of None \<Rightarrow> None | Some (t, r) \<Rightarrow> Some (JString t, r))
          else if c = 0x7B then
            (case skip_ws cs of
               [] \<Rightarrow> None
             | d # ds \<Rightarrow>
                 if d = 0x7D then Some (JObject [], ds)
                 else (case parse_members n (d # ds) of
                         None \<Rightarrow> None
                       | Some (ms, r) \<Rightarrow> Some (JObject ms, r)))
          else if c = 0x5B then
            (case skip_ws cs of
               [] \<Rightarrow> None
             | d # ds \<Rightarrow>
                 if d = 0x5D then Some (JArray [], ds)
                 else (case parse_elements n (d # ds) of
                         None \<Rightarrow> None
                       | Some (vs, r) \<Rightarrow> Some (JArray vs, r)))
          else if c = 0x2D \<or> is_digit c then
            (case parse_number (c # cs) of None \<Rightarrow> None | Some (l, r) \<Rightarrow> Some (JNumber l, r))
          else parse_literal (c # cs))"
| "parse_elements 0 s = None"
| "parse_elements (Suc n) s =
     (case parse_value n s of
        None \<Rightarrow> None
      | Some (v, r) \<Rightarrow>
          (case skip_ws r of
             [] \<Rightarrow> None
           | c # cs \<Rightarrow>
               if c = 0x5D then Some ([v], cs)
               else if c = 0x2C then cons_result v (parse_elements n cs)
               else None))"
| "parse_members 0 s = None"
| "parse_members (Suc n) s =
     (case skip_ws s of
        [] \<Rightarrow> None
      | c # cs \<Rightarrow>
          if c \<noteq> 0x22 then None
          else
            (case parse_string_body cs of
               None \<Rightarrow> None
             | Some (k, r) \<Rightarrow>
                 (case skip_ws r of
                    [] \<Rightarrow> None
                  | c1 # r1 \<Rightarrow>
                      if c1 \<noteq> 0x3A then None
                      else
                        (case parse_value n r1 of
                           None \<Rightarrow> None
                         | Some (v, r2) \<Rightarrow>
                             (case skip_ws r2 of
                                [] \<Rightarrow> None
                              | c2 # r3 \<Rightarrow>
                                  if c2 = 0x7D then Some ([(k, v)], r3)
                                  else if c2 = 0x2C then cons_result (k, v) (parse_members n r3)
                                  else None)))))"

text \<open>\<open>JSON.parse\<close>: \<open>None\<close> is the SyntaxError it throws.\<close>

definition JSON_parse :: "jsstring \<Rightarrow> json option" where
  "JSON_parse s =
     (case parse_value (2 * length s + 2) s of
        None \<Rightarrow> None
      | Some (v, r) \<Rightarrow> if skip_ws r = [] then Some v else None)"

text \<open>Property read \<open>o[k]\<close> on a parsed value: of duplicate members the last one counts.\<close>

definition get_field :: "jsstring \<Rightarrow> json \<Rightarrow> json option" where
  "get_field k v = (case v of JObject ms \<Rightarrow> map_of (rev ms) k | _ \<Rightarrow> None)"

section \<open>Effects, errors and results\<close>

datatype error =
    SyntaxError
  | RedisError
  | KafkaConnectError
  | KafkaSubscribeError
  | KafkaRunError
  | KafkaSendError
  | StoreError

datatype logarg =
    LString jsstring
  | LNumber nat
  | LUndefined
  | LError error
  | LObject "(string \<times> logarg) list"

text \<open>
  A \<open>{topic, partitions}\<close> entry of a pause or resume directive; \<open>None\<close> is an entry
  without \<open>partitions\<close>.
\<close>

type_synonym topic_partitions = "jsstring \<times> nat list option"

text \<open>
  What a handler does to the outside, in program order. Client objects are named by a
  number. \<open>StoreCreate text ok\<close> is \<open>prismaClient.message.create\<close> with whether it
  resolved; \<open>SetTimeout ms cb\<close> carries what the callback does when it fires.
\<close>

datatype effect =
    ConsoleLog "logarg list"
  | ConsoleError "logarg list"
  | RedisPublish jsstring jsstring
  | IoEmit jsstring json
  | ProducerCreate nat
  | ProducerConnect nat
  | ProducerSend nat jsstring jsstring jsstring
  | ConsumerCreate nat jsstring
  | ConsumerConnect nat
  | ConsumerSubscribe nat jsstring bool
  | ConsumerRun nat
  | StoreCreate jsstring bool
  | ConsumerPause nat "topic_partitions list"
  | ConsumerResume nat "topic_partitions list"
  | SetTimeout nat "effect list"

text \<open>
  The result of an async function: \<open>Inl e\<close> when its promise rejects with \<open>e\<close>,
  \<open>Inr x\<close> when it resolves to \<open>x\<close>, with the effects up to that point.
\<close>

type_synonym 'a io = "(error + 'a) \<times> effect list"

definition do_effect :: "effect \<Rightarrow> unit io" where
  "do_effect e = (Inr (), [e])"

definition await_call :: "effect \<Rightarrow> bool \<Rightarrow> error \<Rightarrow> unit io" where
  "await_call e ok err = (if ok then Inr () else Inl err, [e])"

definition and_then :: "'a io \<Rightarrow> ('a \<Rightarrow> 'b io) \<Rightarrow> 'b io" where
  "and_then m f =
     (case m of
        (Inl e, fx) \<Rightarrow> (Inl e, fx)
      | (Inr x, fx) \<Rightarrow> (case f x of (r, fx') \<Rightarrow> (r, fx @ fx')))"

fun statements :: "unit io list \<Rightarrow> unit io" where
  "statements [] = (Inr (), [])"
| "statements (m # ms) = and_then m (\<lambda>_. statements ms)"

definition try_catch :: "'a io \<Rightarrow> (error \<Rightarrow> 'a io) \<Rightarrow> 'a io" where
  "try_catch body handler =
     (case body of
        (Inl e, fx) \<Rightarrow> (case handler e of (r, fx') \<Rightarrow> (r, fx @ fx'))
      | (Inr x, fx) \<Rightarrow> (Inr x, fx))"

section \<open>The socket service (Ingress Relay and Local Broadcaster)\<close>

text \<open>
  The handler of \<open>event:message\<close>, for a client message with text \<open>message\<close>;
  \<open>publish_ok\<close> is whether \<open>pub.publish\<close> resolves.
\<close>

definition on_event_message :: "bool \<Rightarrow> jsstring \<Rightarrow> unit io" where
  "on_event_message publish_ok message =
     statements
       [do_effect (ConsoleLog [LString (js ''New Message Received:''), LString message]),
        await_call
          (RedisPublish (js ''MESSAGES'') (JSON_stringify (JObject [(js ''message'', JString message)])))
          publish_ok RedisError]"

text \<open>The handler of the subscriber connection's \<open>message\<close> event.\<close>

definition on_bus_message :: "jsstring \<Rightarrow> jsstring \<Rightarrow> unit io" where
  "on_bus_message channel message =
     (if channel = js ''MESSAGES'' then
        statements
          [do_effect (ConsoleLog [LString (js ''New message from Redis:''), LString message]),
           (case JSON_parse message of
              None \<Rightarrow> (Inl SyntaxError, [])
            | Some v \<Rightarrow> do_effect (IoEmit (js ''message'') v))]
      else (Inr (), []))"

text \<open>
  \<open>io.emit\<close> sends the event to every socket connected to the instance's server:
  what the sockets \<open>clients\<close> receive from a handler's effects.
\<close>

fun client_receives :: "nat list \<Rightarrow> effect list \<Rightarrow> (nat \<times> jsstring \<times> json) list" where
  "client_receives clients [] = []"
| "client_receives clients (IoEmit ev v # fx) =
     map (\<lambda>c. (c, ev, v)) clients @ client_receives clients fx"
| "client_receives clients (_ # fx) = client_receives clients fx"

fun published :: "effect list \<Rightarrow> (jsstring \<times> jsstring) list" where
  "published [] = []"
| "published (RedisPublish ch p # fx) = (ch, p) # published fx"
| "published (_ # fx) = published fx"

text \<open>The appends to the Durable Log among a handler's effects: topic, key and value.\<close>

fun appended :: "effect list \<Rightarrow> (jsstring \<times> jsstring \<times> jsstring) list" where
  "appended [] = []"
| "appended (ProducerSend p topic k v # fx) = (topic, k, v) # appended fx"
| "appended (_ # fx) = appended fx"

text \<open>
  Several instances on one bus, each given by the sockets connected to it. Every instance
  subscribes to \<open>MESSAGES\<close> in its constructor, so the bus hands each published payload
  to \<open>on_bus_message\<close> of every instance, the publishing one included.
  \<open>fan_out\<close> is what the clients of instance \<open>j\<close> receive when a client of instance
  \<open>i\<close> submits \<open>message\<close>: first what the \<open>event:message\<close> handler itself sends
  them (for \<open>j = i\<close>), then what the bus callback sends.
\<close>

definition bus_deliveries :: "nat list \<Rightarrow> (jsstring \<times> jsstring) list \<Rightarrow> (nat \<times> jsstring \<times> json) list" where
  "bus_deliveries clients ps =
     concat (map (\<lambda>(ch, p). client_receives clients (snd (on_bus_message ch p))) ps)"

definition fan_out :: "nat list list \<Rightarrow> nat \<Rightarrow> jsstring \<Rightarrow> nat \<Rightarrow> (nat \<times> jsstring \<times> json) list" where
  "fan_out cluster i message j =
     (let fx = snd (on_event_message True message) in
      (if j = i then client_receives (cluster ! j) fx else []) @
      bus_deliveries (cluster ! j) (published fx))"

section \<open>The Kafka service\<close>

text \<open>
  The module variables \<open>producer\<close> and \<open>consumer\<close> (\<open>None\<close> is \<open>null\<close>), and the
  number of client objects created so far, which names the next one.
\<close>

record kafka_module =
  producer :: "nat option"
  consumer :: "nat option"
  created :: nat

definition initial_module :: kafka_module where
  "initial_module = \<lparr>producer = None, consumer = None, created = 0\<rparr>"

definition createProducer :: "bool \<Rightarrow> kafka_module \<Rightarrow> (error + nat) \<times> kafka_module \<times> effect list" where
  "createProducer connect_ok m =
     (case producer m of
        Some p \<Rightarrow> (Inr p, m, [])
      | None \<Rightarrow>
          (let p = created m;
               m1 = m\<lparr>created := Suc p\<rparr>;
               fx = [ProducerCreate p, ProducerConnect p]
           in if connect_ok then (Inr p, m1\<lparr>producer := Some p\<rparr>, fx)
              else (Inl KafkaConnectError, m1, fx)))"

text \<open>\<open>now\<close> is the value of \<open>Date.now()\<close>.\<close>

definition produceMessage ::
  "bool \<Rightarrow> bool \<Rightarrow> nat \<Rightarrow> jsstring \<Rightarrow> kafka_module \<Rightarrow> (error + bool) \<times> kafka_module \<times> effect list" where
  "produceMessage connect_ok send_ok now message m =
     (case createProducer connect_ok m of
        (Inl e, m1, fx) \<Rightarrow> (Inl e, m1, fx)
      | (Inr p, m1, fx) \<Rightarrow>
          (let send = ProducerSend p (js ''MESSAGES'') (js ''message-'' @ number_to_string now) message
           in if send_ok then (Inr True, m1, fx @ [send])
              else (Inl KafkaSendError, m1, fx @ [send])))"

definition createConsumer :: "bool \<Rightarrow> jsstring \<Rightarrow> kafka_module \<Rightarrow> (error + nat) \<times> kafka_module \<times> effect list" where
  "createConsumer connect_ok groupId m =
     (case consumer m of
        Some c \<Rightarrow> (Inr c, m, [])
      | None \<Rightarrow>
          (let c = created m;
               m1 = m\<lparr>created := Suc c\<rparr>;
               fx = [ConsumerCreate c groupId, ConsumerConnect c]
           in if connect_ok then (Inr c, m1\<lparr>consumer := Some c\<rparr>, fx)
              else (Inl KafkaConnectError, m1, fx)))"

text \<open>
  The two constructors suspend at \<open>await connect()\<close>, and other calls can run
  meanwhile. A call therefore has two parts, each running without interruption: entering
  (the test of the module variable and, when it is \<open>null\<close>, the creation of a
  client and the start of its connect), and resuming when the connect has settled (the
  assignment to the module variable and the return). \<open>createProducer\<close> and
  \<open>createConsumer\<close> above are a call with nothing running between its two parts.
\<close>

datatype entered = Returned nat | Awaiting nat

definition createProducer_enter :: "kafka_module \<Rightarrow> entered \<times> kafka_module \<times> effect list" where
  "createProducer_enter m =
     (case producer m of
        Some p \<Rightarrow> (Returned p, m, [])
      | None \<Rightarrow>
          (let p = created m
           in (Awaiting p, m\<lparr>created := Suc p\<rparr>, [ProducerCreate p, ProducerConnect p])))"

definition createProducer_resume :: "bool \<Rightarrow> nat \<Rightarrow> kafka_module \<Rightarrow> (error + nat) \<times> kafka_module" where
  "createProducer_resume connect_ok p m =
     (if connect_ok then (Inr p, m\<lparr>producer := Some p\<rparr>) else (Inl KafkaConnectError, m))"

definition createConsumer_enter :: "jsstring \<Rightarrow> kafka_module \<Rightarrow> entered \<times> kafka_module \<times> effect list" where
  "createConsumer_enter groupId m =
     (case consumer m of
        Some c \<Rightarrow> (Returned c, m, [])
      | None \<Rightarrow>
          (let c = created m
           in (Awaiting c, m\<lparr>created := Suc c\<rparr>, [ConsumerCreate c groupId, ConsumerConnect c])))"

definition createConsumer_resume :: "bool \<Rightarrow> nat \<Rightarrow> kafka_module \<Rightarrow> (error + nat) \<times> kafka_module" where
  "createConsumer_resume connect_ok c m =
     (if connect_ok then (Inr c, m\<lparr>consumer := Some c\<rparr>) else (Inl KafkaConnectError, m))"

text \<open>
  Calls made one after the other, each entered when the previous one has completed:
  the results in order, the module state at the end and all effects. A call of
  \<open>createProducer\<close> is given by whether its connect would succeed, a call of
  \<open>createConsumer\<close> by that and its group id.
\<close>

fun createProducer_calls :: "bool list \<Rightarrow> kafka_module \<Rightarrow> (error + nat) list \<times> kafka_module \<times> effect list" where
  "createProducer_calls [] m = ([], m, [])"
| "createProducer_calls (ok # oks) m =
     (case createProducer ok m of
        (r, m1, fx) \<Rightarrow>
          (case createProducer_calls oks m1 of
             (rs, m2, fx') \<Rightarrow> (r # rs, m2, fx @ fx')))"

fun createConsumer_calls ::
  "(bool \<times> jsstring) list \<Rightarrow> kafka_module \<Rightarrow> (error + nat) list \<times> kafka_module \<times> effect list" where
  "createConsumer_calls [] m = ([], m, [])"
| "createConsumer_calls ((ok, g) # cs) m =
     (case createConsumer ok g m of
        (r, m1, fx) \<Rightarrow>
          (case createConsumer_calls cs m1 of
             (rs, m2, fx') \<Rightarrow> (r # rs, m2, fx @ fx')))"

record kafka_message =
  msg_offset :: nat
  msg_value :: "jsstring option"

record each_payload =
  each_topic :: jsstring
  each_partition :: nat
  each_message :: kafka_message

text \<open>
  The \<open>eachMessage\<close> handler given to \<open>consumer.run\<close>. \<open>msg_value\<close> is the
  \<open>Buffer | null\<close> of the log client, a buffer being identified with the text
  \<open>toString()\<close> gives: \<open>Some []\<close> is an empty buffer, an object and so truthy.
  \<open>store_ok\<close> is whether the store's \<open>create\<close> resolves.
\<close>

definition eachMessage :: "nat \<Rightarrow> bool \<Rightarrow> each_payload \<Rightarrow> unit io" where
  "eachMessage consumer_ref store_ok p =
     statements
       [do_effect (ConsoleLog
          [LString (js ''Kafka message received:''),
           LObject
             [(''partition'', LNumber (each_partition p)),
              (''offset'', LNumber (msg_offset (each_message p))),
              (''value'', (case msg_value (each_message p) of
                             None \<Rightarrow> LUndefined | Some v \<Rightarrow> LString v))]]),
        (case msg_value (each_message p) of
           None \<Rightarrow> (Inr (), [])
         | Some messageText \<Rightarrow>
             try_catch
               (statements
                  [await_call (StoreCreate messageText store_ok) store_ok StoreError,
                   do_effect (ConsoleLog
                     [LString (js ''Message saved to database:''), LString messageText])])
               (\<lambda>err. statements
                  [do_effect (ConsoleError
                     [LString (js ''Error saving message to database:''), LError err]),
                   do_effect (ConsoleLog [LString (js ''Pausing consumer for 1 minute...'')]),
                   do_effect (ConsumerPause consumer_ref [(js ''MESSAGES'', None)]),
                   do_effect (SetTimeout 60000
                     [ConsoleLog [LString (js ''Resuming consumer...'')],
                      ConsumerResume consumer_ref [(js ''MESSAGES'', None)]])]))]"

text \<open>
  Names for two parts of \<open>eachMessage\<close>: its first log line, and what the callback
  given to \<open>setTimeout\<close> does.
\<close>

definition received_log :: "each_payload \<Rightarrow> effect" where
  "received_log p =
     ConsoleLog
       [LString (js ''Kafka message received:''),
        LObject
          [(''partition'', LNumber (each_partition p)),
           (''offset'', LNumber (msg_offset (each_message p))),
           (''value'', (case msg_value (each_message p) of
                          None \<Rightarrow> LUndefined | Some v \<Rightarrow> LString v))]]"

definition resume_callback :: "nat \<Rightarrow> effect list" where
  "resume_callback c =
     [ConsoleLog [LString (js ''Resuming consumer...'')],
      ConsumerResume c [(js ''MESSAGES'', None)]]"


definition startMessageConsumer ::
  "bool \<Rightarrow> bool \<Rightarrow> bool \<Rightarrow> kafka_module \<Rightarrow> (error + unit) \<times> kafka_module \<times> effect list" where
  "startMessageConsumer connect_ok subscribe_ok run_ok m =
     (let fx0 = [ConsoleLog [LString (js ''Starting Kafka Consumer...'')]] in
      case createConsumer connect_ok (js ''message-consumer-group'') m of
        (Inl e, m1, fx1) \<Rightarrow> (Inl e, m1, fx0 @ fx1)
      | (Inr c, m1, fx1) \<Rightarrow>
          (let fx2 = fx0 @ fx1 @ [ConsumerSubscribe c (js ''MESSAGES'') True] in
           if \<not> subscribe_ok then (Inl KafkaSubscribeError, m1, fx2)
           else if \<not> run_ok then (Inl KafkaRunError, m1, fx2 @ [ConsumerRun c])
           else (Inr (), m1, fx2 @ [ConsumerRun c])))"

section \<open>The log client and the store, as the consumer drives them\<close>

text \<open>
  The log client's side of \<open>consumer.run\<close>, \<open>pause\<close> and \<open>resume\<close> (the kafkajs
  contract of \<open>eachMessage\<close>): the messages of a partition go to the handler in offset
  order; the client fetches from a partition only while it is not paused; an offset counts
  as processed when the handler's promise resolves, and stays to be fetched again when it
  rejects. A directive entry without \<open>partitions\<close> names every partition of its
  topic. Pause state belongs to one consumer client: it concerns the partitions assigned
  to that client and no other worker of the group.
\<close>

definition directive_covers :: "topic_partitions \<Rightarrow> jsstring \<Rightarrow> nat \<Rightarrow> bool" where
  "directive_covers d t p =
     (fst d = t \<and> (case snd d of None \<Rightarrow> True | Some ps \<Rightarrow> p \<in> set ps))"

definition is_paused :: "topic_partitions list \<Rightarrow> jsstring \<Rightarrow> nat \<Rightarrow> bool" where
  "is_paused ds t p = list_ex (\<lambda>d. directive_covers d t p) ds"

fun resume_entry :: "topic_partitions \<Rightarrow> topic_partitions list \<Rightarrow> topic_partitions list" where
  "resume_entry (t, None) ds = filter (\<lambda>d. fst d \<noteq> t) ds"
| "resume_entry (t, Some ps) ds =
     map (\<lambda>d. if fst d = t
               then (case snd d of
                       None \<Rightarrow> d
                     | Some l \<Rightarrow> (t, Some (filter (\<lambda>q. q \<notin> set ps) l)))
               else d) ds"

text \<open>
  One server process with its surroundings. In memory: the module variables, the pause
  directives in force in the consumer client, the pending timer callbacks (all timers of
  the program have the same delay, so they fire in the order they were set). Outside the
  process: the partitions of topic \<open>MESSAGES\<close> assigned to this process's consumer
  (the value at each offset), the group's next offset per partition, and the texts of the
  rows in the store.
\<close>

record world =
  kafka :: kafka_module
  paused :: "topic_partitions list"
  timers :: "effect list list"
  partitions :: "jsstring option list list"
  cursor :: "nat list"
  store :: "jsstring list"

fun apply_effect :: "effect \<Rightarrow> world \<Rightarrow> world" where
  "apply_effect (ConsumerCreate c g) w = w\<lparr>paused := []\<rparr>"
| "apply_effect (ConsumerPause c ds) w = w\<lparr>paused := paused w @ ds\<rparr>"
| "apply_effect (ConsumerResume c ds) w = w\<lparr>paused := fold resume_entry ds (paused w)\<rparr>"
| "apply_effect (SetTimeout ms cb) w = w\<lparr>timers := timers w @ [cb]\<rparr>"
| "apply_effect (StoreCreate text ok) w = (if ok then w\<lparr>store := store w @ [text]\<rparr> else w)"
| "apply_effect _ w = w"

definition deliverable :: "world \<Rightarrow> nat \<Rightarrow> bool" where
  "deliverable w p \<longleftrightarrow>
     consumer (kafka w) \<noteq> None \<and> p < length (partitions w) \<and> p < length (cursor w) \<and>
     cursor w ! p < length (partitions w ! p) \<and> \<not> is_paused (paused w) (js ''MESSAGES'') p"

text \<open>
  The log client fetches the next message of partition \<open>p\<close> and hands it to
  \<open>eachMessage\<close>; \<open>store_ok\<close> is whether the store accepts a write during this
  call. Each step fetches one message, at the moment it is delivered. A run of the real
  client in which one fetch brings batches of several partitions, and a batch already
  fetched is still handed over after a pause, is not a run of this model: the model shows
  runs that exist, it does not bound what is delivered while a pause is in force.
\<close>

definition deliver :: "nat \<Rightarrow> bool \<Rightarrow> world \<Rightarrow> world" where
  "deliver p store_ok w =
     (case consumer (kafka w) of
        None \<Rightarrow> w
      | Some c \<Rightarrow>
          if deliverable w p then
            (let off = cursor w ! p;
                 res = eachMessage c store_ok
                         \<lparr>each_topic = js ''MESSAGES'', each_partition = p,
                          each_message = \<lparr>msg_offset = off, msg_value = partitions w ! p ! off\<rparr>\<rparr>;
                 w1 = fold apply_effect (snd res) w
             in (case fst res of
                   Inr _ \<Rightarrow> w1\<lparr>cursor := (cursor w1)[p := Suc off]\<rparr>
                 | Inl _ \<Rightarrow> w1))
          else w)"

definition timer_fires :: "world \<Rightarrow> world" where
  "timer_fires w =
     (case timers w of
        [] \<Rightarrow> w
      | cb # rest \<Rightarrow> fold apply_effect cb (w\<lparr>timers := rest\<rparr>))"

datatype event = Deliver nat bool | TimerFires

fun step :: "world \<Rightarrow> event \<Rightarrow> world" where
  "step w (Deliver p store_ok) = deliver p store_ok w"
| "step w TimerFires = timer_fires w"

definition run :: "world \<Rightarrow> event list \<Rightarrow> world" where
  "run w evs = foldl step w evs"

text \<open>
  A process start: the module variables are \<open>null\<close>, \<open>startMessageConsumer\<close> runs
  (its calls to the log client succeeding), and nothing is pending. The log, the group's
  offsets and the store are what they are outside the process.
\<close>

definition process_start :: "jsstring option list list \<Rightarrow> nat list \<Rightarrow> jsstring list \<Rightarrow> world" where
  "process_start log_parts offsets rows =
     (case startMessageConsumer True True True initial_module of
        (r, m, fx) \<Rightarrow>
          fold apply_effect fx
            \<lparr>kafka = m, paused = [], timers = [], partitions = log_parts, cursor = offsets,
             store = rows\<rparr>)"

definition restart :: "world \<Rightarrow> world" where
  "restart w = process_start (partitions w) (cursor w) (store w)"

definition store_failure :: "event \<Rightarrow> bool" where
  "store_failure ev = (case ev of Deliver p ok \<Rightarrow> \<not> ok | TimerFires \<Rightarrow> False)"

section \<open>Decimal digits of a number\<close>

lemma digits_acc_append: "digits_acc n acc = digits_acc n [] @ acc"
proof (induction n arbitrary: acc rule: less_induct)
  case (less n)
  show ?case
  proof (cases "n < 10")
    case True
    then show ?thesis by (simp add: digits_acc.simps)
  next
    case False
    then have d: "n div 10 < n" by simp
    have "digits_acc n acc = digits_acc (n div 10) ((0x30 + of_nat (n mod 10)) # acc)"
      using False by (subst digits_acc.simps) simp
    also have "\<dots> = digits_acc (n div 10) [] @ (0x30 + of_nat (n mod 10)) # acc"
      using less [OF d] by blast
    also have "\<dots> = (digits_acc (n div 10) [] @ [0x30 + of_nat (n mod 10)]) @ acc"
      by simp
    also have "digits_acc (n div 10) [] @ [0x30 + of_nat (n mod 10)] =
               digits_acc (n div 10) [0x30 + of_nat (n mod 10)]"
      using less [OF d, of "[0x30 + of_nat (n mod 10)]"] by simp
    also have "\<dots> = digits_acc n []"
      using False by (subst (2) digits_acc.simps) simp
    finally show ?thesis .
  qed
qed

lemma number_to_string_rec:
  "number_to_string n =
     (if n < 10 then [0x30 + of_nat n]
      else number_to_string (n div 10) @ [0x30 + of_nat (n mod 10)])"
  unfolding number_to_string_def
  by (subst digits_acc.simps) (simp add: digits_acc_append [of "n div 10" "[_]"])

lemma digit_unit: "k < 10 \<Longrightarrow> unat ((0x30 + of_nat k :: 16 word) - 0x30) = k"
  by (simp add: unat_of_nat)

lemma digit_is_digit: "k < 10 \<Longrightarrow> is_digit (0x30 + of_nat k)"
proof -
  assume k: "k < 10"
  then have "unat (0x30 + of_nat k :: 16 word) = 48 + k"
    by (simp add: unat_word_ariths unat_of_nat)
  then show ?thesis using k by (simp add: is_digit_def word_le_nat_alt)
qed

lemma number_to_string_decimal:
  "decimal_value (number_to_string n) = n \<and> list_all is_digit (number_to_string n)"
proof (induction n rule: less_induct)
  case (less n)
  show ?case
  proof (cases "n < 10")
    case True
    then show ?thesis
      using digit_unit [of n] digit_is_digit [of n]
      by (subst (1 2) number_to_string_rec) (simp add: decimal_value_def)
  next
    case False
    then have "n div 10 < n" by simp
    then have ih: "decimal_value (number_to_string (n div 10)) = n div 10"
      "list_all is_digit (number_to_string (n div 10))"
      using less by blast+
    have m: "n mod 10 < 10" by simp
    show ?thesis
      using False ih digit_unit [OF m] digit_is_digit [OF m]
      by (subst (1 2) number_to_string_rec) (simp add: decimal_value_def)
  qed
qed

section \<open>The parser's bound is never reached\<close>

text \<open>
  Every successful parse consumes input, so \<open>2 * length s + 2\<close> nested calls are
  enough for any input \<open>s\<close>: with a larger bound the parser gives the same result
  (\<open>JSON_parse_fuel\<close>). \<open>JSON_parse s = None\<close> therefore always stands for a
  SyntaxError, never for an exhausted bound.
\<close>

lemma length_skip_ws: "length (skip_ws s) \<le> length s"
  by (simp add: skip_ws_def length_dropWhile_le)

lemma cons_result_Some:
  "cons_result x r = Some (ys, rest) \<longleftrightarrow> (\<exists>xs. r = Some (xs, rest) \<and> ys = x # xs)"
  by (auto simp: cons_result_def split: option.splits)

lemma parse_string_body_rest:
  "parse_string_body s = Some (t, r) \<Longrightarrow> length r < length s"
proof (induction s arbitrary: t rule: parse_string_body.induct)
  case 1
  then show ?case by simp
next
  case (2 c cs)
  show ?case
  proof (cases "c = 0x22")
    case True
    then show ?thesis using "2.prems" by simp
  next
    case q: False
    show ?thesis
    proof (cases "c = 0x5C")
      case False
      then show ?thesis
        using q "2.prems" "2.IH"(3)
        by (auto simp: cons_result_Some split: if_splits)
    next
      case True
      then show ?thesis
        using q "2.prems" "2.IH"(1,2)
        by (fastforce simp: cons_result_Some split: if_splits list.splits option.splits)
    qed
  qed
qed


lemma take_digits_rest:
  assumes "take_digits s = Some (ds, r)"
  shows "length r < length s"
proof -
  have n: "takeWhile is_digit s \<noteq> []" and r: "r = dropWhile is_digit s"
    using assms by (auto simp: take_digits_def Let_def split: if_splits)
  have "length (takeWhile is_digit s) + length (dropWhile is_digit s) =
        length (takeWhile is_digit s @ dropWhile is_digit s)"
    by (simp only: length_append)
  also have "\<dots> = length s"
    by (simp only: takeWhile_dropWhile_id)
  finally have "length (takeWhile is_digit s) + length r = length s"
    by (simp only: r)
  moreover have "0 < length (takeWhile is_digit s)" using n by simp
  ultimately show ?thesis by linarith
qed

lemma parse_int_part_rest:
  assumes "parse_int_part s = Some (l, r)"
  shows "length r < length s"
proof (cases s)
  case Nil
  then show ?thesis using assms by (simp add: parse_int_part_def)
next
  case (Cons c cs)
  then show ?thesis
    using assms take_digits_rest [of s l r]
    by (cases "c = 0x30") (simp_all add: parse_int_part_def)
qed

lemma parse_frac_part_rest:
  assumes "parse_frac_part s = Some (l, r)"
  shows "length r \<le> length s"
proof (cases s)
  case Nil
  then show ?thesis using assms by (simp add: parse_frac_part_def)
next
  case (Cons c cs)
  show ?thesis
  proof (cases "c = 0x2E")
    case False
    then show ?thesis using assms Cons by (simp add: parse_frac_part_def)
  next
    case True
    then obtain ds where "take_digits cs = Some (ds, r)"
      using assms Cons by (auto simp: parse_frac_part_def split: option.splits)
    then have "length r < length cs" by (rule take_digits_rest)
    then show ?thesis using Cons by simp
  qed
qed

lemma parse_exp_part_rest:
  assumes "parse_exp_part s = Some (l, r)"
  shows "length r \<le> length s"
proof (cases s)
  case Nil
  then show ?thesis using assms by (simp add: parse_exp_part_def)
next
  case (Cons c cs)
  show ?thesis
  proof (cases "c = 0x65 \<or> c = 0x45")
    case False
    then show ?thesis using assms Cons by (simp add: parse_exp_part_def)
  next
    case e: True
    show ?thesis
    proof (cases cs)
      case Nil
      then show ?thesis using assms Cons e by (simp add: parse_exp_part_def)
    next
      case (Cons g gs)
      show ?thesis
      proof (cases "g = 0x2B \<or> g = 0x2D")
        case True
        then obtain ds where "take_digits gs = Some (ds, r)"
          using assms \<open>s = c # cs\<close> Cons e
          by (auto simp: parse_exp_part_def split: option.splits)
        then have "length r < length gs" by (rule take_digits_rest)
        then show ?thesis using \<open>s = c # cs\<close> Cons by simp
      next
        case False
        then obtain ds where "take_digits cs = Some (ds, r)"
          using assms \<open>s = c # cs\<close> Cons e
          by (auto simp: parse_exp_part_def split: option.splits)
        then have "length r < length cs" by (rule take_digits_rest)
        then show ?thesis using \<open>s = c # cs\<close> by simp
      qed
    qed
  qed
qed


lemma parse_number_rest:
  assumes "parse_number s = Some (l, r)"
  shows "length r < length s"
proof -
  define s0 where "s0 = snd (case s of [] \<Rightarrow> ([], s) | c # cs \<Rightarrow> if c = 0x2D then ([c], cs) else ([], s))"
  have l0: "length s0 \<le> length s"
    by (cases s) (simp_all add: s0_def)
  obtain ip s1 fp s2 ep where
    1: "parse_int_part s0 = Some (ip, s1)" and 2: "parse_frac_part s1 = Some (fp, s2)"
    and 3: "parse_exp_part s2 = Some (ep, r)"
    using assms
    by (auto simp: parse_number_def s0_def case_prod_beta split: option.splits)
  have "length s1 < length s0" using 1 by (rule parse_int_part_rest)
  moreover have "length s2 \<le> length s1" using 2 by (rule parse_frac_part_rest)
  moreover have "length r \<le> length s2" using 3 by (rule parse_exp_part_rest)
  ultimately show ?thesis using l0 by linarith
qed

lemma strip_prefix_rest: "strip_prefix p s = Some r \<Longrightarrow> length r + length p = length s"
  by (induction p s rule: strip_prefix.induct) (auto split: if_splits)

lemma parse_literal_rest:
  assumes "parse_literal s = Some (v, r)"
  shows "length r < length s"
proof -
  have "strip_prefix (js ''true'') s = Some r \<or> strip_prefix (js ''false'') s = Some r \<or>
        strip_prefix (js ''null'') s = Some r"
    using assms by (auto simp: parse_literal_def split: option.splits)
  then show ?thesis
    using strip_prefix_rest [of "js ''true''" s r] strip_prefix_rest [of "js ''false''" s r]
      strip_prefix_rest [of "js ''null''" s r]
    by (auto simp: js_def)
qed

lemma skip_ws_Cons_length: "skip_ws s = c # cs \<Longrightarrow> length cs < length s"
  using length_skip_ws [of s] by simp

lemma parse_value_rest_step:
  assumes IHm: "\<And>s ms r. parse_members n s = Some (ms, r) \<Longrightarrow> length r < length s"
    and IHe: "\<And>s vs r. parse_elements n s = Some (vs, r) \<Longrightarrow> length r < length s"
    and a: "parse_value (Suc n) s = Some (v, r)"
  shows "length r < length s"
proof -
  obtain c cs where sk: "skip_ws s = c # cs"
    using a by (cases "skip_ws s") simp_all
  have lcs: "length cs < length s" using sk by (rule skip_ws_Cons_length)
  consider (str) "c = 0x22" | (obj) "c \<noteq> 0x22" "c = 0x7B" | (arr) "c \<noteq> 0x22" "c \<noteq> 0x7B" "c = 0x5B"
    | (num) "c \<noteq> 0x22" "c \<noteq> 0x7B" "c \<noteq> 0x5B" "c = 0x2D \<or> is_digit c"
    | (lit) "c \<noteq> 0x22" "c \<noteq> 0x7B" "c \<noteq> 0x5B" "\<not> (c = 0x2D \<or> is_digit c)"
    by blast
  then show ?thesis
  proof cases
    case str
    then obtain t where "parse_string_body cs = Some (t, r)"
      using a sk by (auto split: option.splits)
    then have "length r < length cs" by (rule parse_string_body_rest)
    then show ?thesis using lcs by linarith
  next
    case obj
    then obtain d ds where sk2: "skip_ws cs = d # ds"
      using a sk by (cases "skip_ws cs") simp_all
    have l2: "length ds < length cs" using sk2 by (rule skip_ws_Cons_length)
    show ?thesis
    proof (cases "d = 0x7D")
      case True
      then have "r = ds" using a sk sk2 obj by simp
      then show ?thesis using l2 lcs by simp
    next
      case False
      then obtain ms where "parse_members n (d # ds) = Some (ms, r)"
        using a sk sk2 obj by (auto split: option.splits)
      then have "length r < length (d # ds)" by (rule IHm)
      then show ?thesis using l2 lcs by simp
    qed
  next
    case arr
    then obtain d ds where sk2: "skip_ws cs = d # ds"
      using a sk by (cases "skip_ws cs") simp_all
    have l2: "length ds < length cs" using sk2 by (rule skip_ws_Cons_length)
    show ?thesis
    proof (cases "d = 0x5D")
      case True
      then have "r = ds" using a sk sk2 arr by simp
      then show ?thesis using l2 lcs by simp
    next
      case False
      then obtain vs where "parse_elements n (d # ds) = Some (vs, r)"
        using a sk sk2 arr by (auto split: option.splits)
      then have "length r < length (d # ds)" by (rule IHe)
      then show ?thesis using l2 lcs by simp
    qed
  next
    case num
    then obtain l where "parse_number (c # cs) = Some (l, r)"
      using a sk by (auto split: option.splits)
    then have "length r < length (c # cs)" by (rule parse_number_rest)
    then show ?thesis using lcs by simp
  next
    case lit
    then have "parse_literal (c # cs) = Some (v, r)"
      using a sk by simp
    then have "length r < length (c # cs)" by (rule parse_literal_rest)
    then show ?thesis using lcs by simp
  qed
qed


lemma parse_elements_rest_step:
  assumes IHv: "\<And>s v r. parse_value n s = Some (v, r) \<Longrightarrow> length r < length s"
    and IHe: "\<And>s vs r. parse_elements n s = Some (vs, r) \<Longrightarrow> length r < length s"
    and a: "parse_elements (Suc n) s = Some (vs, r)"
  shows "length r < length s"
proof -
  obtain v r1 where v: "parse_value n s = Some (v, r1)"
    using a by (cases "parse_value n s") auto
  have l1: "length r1 < length s" using v by (rule IHv)
  obtain c cs where sk: "skip_ws r1 = c # cs"
    using a v by (cases "skip_ws r1") simp_all
  have lcs: "length cs < length r1" using sk by (rule skip_ws_Cons_length)
  show ?thesis
  proof (cases "c = 0x5D")
    case True
    then have "r = cs" using a v sk by simp
    then show ?thesis using lcs l1 by simp
  next
    case False
    then obtain ws where "parse_elements n cs = Some (ws, r)"
      using a v sk by (auto simp: cons_result_Some split: if_splits)
    then have "length r < length cs" by (rule IHe)
    then show ?thesis using lcs l1 by simp
  qed
qed

lemma parse_members_rest_step:
  assumes IHv: "\<And>s v r. parse_value n s = Some (v, r) \<Longrightarrow> length r < length s"
    and IHm: "\<And>s ms r. parse_members n s = Some (ms, r) \<Longrightarrow> length r < length s"
    and a: "parse_members (Suc n) s = Some (ms, r)"
  shows "length r < length s"
proof -
  obtain c cs where sk: "skip_ws s = c # cs"
    using a by (cases "skip_ws s") simp_all
  have lcs: "length cs < length s" using sk by (rule skip_ws_Cons_length)
  have q: "c = 0x22" using a sk by (auto split: if_splits)
  obtain k r0 where k: "parse_string_body cs = Some (k, r0)"
    using a sk q by (cases "parse_string_body cs") auto
  have l0: "length r0 < length cs" using k by (rule parse_string_body_rest)
  obtain c1 r1 where sk1: "skip_ws r0 = c1 # r1"
    using a sk q k by (cases "skip_ws r0") simp_all
  have l1: "length r1 < length r0" using sk1 by (rule skip_ws_Cons_length)
  have col: "c1 = 0x3A" using a sk q k sk1 by (auto split: if_splits)
  obtain v r2 where v: "parse_value n r1 = Some (v, r2)"
    using a sk q k sk1 col by (cases "parse_value n r1") auto
  have l2: "length r2 < length r1" using v by (rule IHv)
  obtain c2 r3 where sk2: "skip_ws r2 = c2 # r3"
    using a sk q k sk1 col v by (cases "skip_ws r2") simp_all
  have l3: "length r3 < length r2" using sk2 by (rule skip_ws_Cons_length)
  show ?thesis
  proof (cases "c2 = 0x7D")
    case True
    then have "r = r3" using a sk q k sk1 col v sk2 by simp
    then show ?thesis using lcs l0 l1 l2 l3 by simp
  next
    case False
    then obtain ws where "parse_members n r3 = Some (ws, r)"
      using a sk q k sk1 col v sk2 by (auto simp: cons_result_Some split: if_splits)
    then have "length r < length r3" by (rule IHm)
    then show ?thesis using lcs l0 l1 l2 l3 by simp
  qed
qed

lemma parse_rest:
  "(\<forall>s v r. parse_value n s = Some (v, r) \<longrightarrow> length r < length s) \<and>
   (\<forall>s vs r. parse_elements n s = Some (vs, r) \<longrightarrow> length r < length s) \<and>
   (\<forall>s ms r. parse_members n s = Some (ms, r) \<longrightarrow> length r < length s)"
proof (induction n)
  case 0
  then show ?case by simp
next
  case (Suc n)
  show ?case
    using Suc parse_value_rest_step [of n] parse_elements_rest_step [of n]
      parse_members_rest_step [of n]
    by blast
qed

lemma parse_value_rest: "parse_value n s = Some (v, r) \<Longrightarrow> length r < length s"
  using parse_rest [of n] by blast

lemma parse_value_stable_step:
  assumes IHm: "\<And>s. 2 * length s + 2 \<le> n \<Longrightarrow> parse_members (Suc n) s = parse_members n s"
    and IHe: "\<And>s. 2 * length s + 2 \<le> n \<Longrightarrow> parse_elements (Suc n) s = parse_elements n s"
    and b: "2 * length s + 1 \<le> Suc n"
  shows "parse_value (Suc (Suc n)) s = parse_value (Suc n) s"
proof (cases "skip_ws s")
  case Nil
  then show ?thesis by simp
next
  case (Cons c cs)
  have lcs: "length cs < length s" using Cons by (rule skip_ws_Cons_length)
  show ?thesis
  proof (cases "skip_ws cs")
    case Nil
    then show ?thesis using Cons by simp
  next
    case inner: (Cons d ds)
    have "length ds < length cs" using inner by (rule skip_ws_Cons_length)
    then have "2 * length (d # ds) + 2 \<le> n" using lcs b by simp
    then have "parse_members (Suc n) (d # ds) = parse_members n (d # ds)"
      and "parse_elements (Suc n) (d # ds) = parse_elements n (d # ds)"
      using IHm IHe by blast+
    then show ?thesis
      using Cons inner
      by (simp del: parse_members.simps parse_elements.simps)
  qed
qed

lemma parse_elements_stable_step:
  assumes IHv: "\<And>s. 2 * length s + 1 \<le> n \<Longrightarrow> parse_value (Suc n) s = parse_value n s"
    and IHe: "\<And>s. 2 * length s + 2 \<le> n \<Longrightarrow> parse_elements (Suc n) s = parse_elements n s"
    and b: "2 * length s + 2 \<le> Suc n"
  shows "parse_elements (Suc (Suc n)) s = parse_elements (Suc n) s"
proof -
  have v: "parse_value (Suc n) s = parse_value n s"
    using b by (intro IHv) simp
  show ?thesis
  proof (cases "parse_value n s")
    case None
    then show ?thesis using v by simp
  next
    case (Some vr)
    obtain v0 r where vr: "vr = (v0, r)" by (cases vr)
    have lr: "length r < length s" using Some vr parse_value_rest by blast
    show ?thesis
    proof (cases "skip_ws r")
      case Nil
      then show ?thesis using v Some vr by (simp del: parse_value.simps)
    next
      case (Cons c cs)
      have "length cs < length r" using Cons by (rule skip_ws_Cons_length)
      then have "2 * length cs + 2 \<le> n" using lr b by simp
      then have "parse_elements (Suc n) cs = parse_elements n cs" by (rule IHe)
      then show ?thesis
        using v Some vr Cons
        by (simp del: parse_value.simps parse_elements.simps
            add: parse_elements.simps(2) [of "Suc n"] parse_elements.simps(2) [of n])
    qed
  qed
qed


lemma parse_members_stable_step:
  assumes IHv: "\<And>s. 2 * length s + 1 \<le> n \<Longrightarrow> parse_value (Suc n) s = parse_value n s"
    and IHm: "\<And>s. 2 * length s + 2 \<le> n \<Longrightarrow> parse_members (Suc n) s = parse_members n s"
    and b: "2 * length s + 2 \<le> Suc n"
  shows "parse_members (Suc (Suc n)) s = parse_members (Suc n) s"
proof (cases "skip_ws s")
  case Nil
  then show ?thesis by simp
next
  case (Cons c cs)
  have lcs: "length cs < length s" using Cons by (rule skip_ws_Cons_length)
  show ?thesis
  proof (cases "parse_string_body cs")
    case None
    then show ?thesis using Cons by simp
  next
    case (Some kr)
    obtain k r0 where kr: "kr = (k, r0)" by (cases kr)
    have l0: "length r0 < length cs" using Some kr parse_string_body_rest by blast
    show ?thesis
    proof (cases "skip_ws r0")
      case Nil
      then show ?thesis using Cons Some kr by simp
    next
      case colon: (Cons c1 r1)
      have l1: "length r1 < length r0" using colon by (rule skip_ws_Cons_length)
      have v: "parse_value (Suc n) r1 = parse_value n r1"
        using b lcs l0 l1 by (intro IHv) simp
      show ?thesis
      proof (cases "parse_value n r1")
        case None
        then show ?thesis
          using Cons Some kr colon v
          by (simp del: parse_value.simps parse_members.simps
              add: parse_members.simps(2) [of "Suc n"] parse_members.simps(2) [of n])
      next
        case val: (Some vr)
        obtain v0 r2 where vr: "vr = (v0, r2)" by (cases vr)
        have l2: "length r2 < length r1" using val vr parse_value_rest by blast
        show ?thesis
        proof (cases "skip_ws r2")
          case Nil
          then show ?thesis
            using Cons Some kr colon v val vr
            by (simp del: parse_value.simps parse_members.simps
                add: parse_members.simps(2) [of "Suc n"] parse_members.simps(2) [of n])
        next
          case next_member: (Cons c2 r3)
          have "length r3 < length r2" using next_member by (rule skip_ws_Cons_length)
          then have "2 * length r3 + 2 \<le> n" using b lcs l0 l1 l2 by simp
          then have "parse_members (Suc n) r3 = parse_members n r3" by (rule IHm)
          then show ?thesis
            using Cons Some kr colon v val vr next_member
            by (simp del: parse_value.simps parse_members.simps
                add: parse_members.simps(2) [of "Suc n"] parse_members.simps(2) [of n])
        qed
      qed
    qed
  qed
qed

lemma parse_stable:
  "(\<forall>s. 2 * length s + 1 \<le> n \<longrightarrow> parse_value (Suc n) s = parse_value n s) \<and>
   (\<forall>s. 2 * length s + 2 \<le> n \<longrightarrow> parse_elements (Suc n) s = parse_elements n s) \<and>
   (\<forall>s. 2 * length s + 2 \<le> n \<longrightarrow> parse_members (Suc n) s = parse_members n s)"
proof (induction n)
  case 0
  then show ?case by simp
next
  case (Suc n)
  show ?case
    using Suc parse_value_stable_step [of n] parse_elements_stable_step [of n]
      parse_members_stable_step [of n]
    by blast
qed

lemma parse_value_more_fuel:
  "2 * length s + 1 \<le> n \<Longrightarrow> parse_value (n + k) s = parse_value n s"
proof (induction k)
  case 0
  then show ?case by simp
next
  case (Suc k)
  have "2 * length s + 1 \<le> n + k" using Suc.prems by simp
  then have "parse_value (Suc (n + k)) s = parse_value (n + k) s"
    using parse_stable [of "n + k"] by blast
  then show ?case using Suc by simp
qed

lemma JSON_parse_fuel:
  assumes "2 * length s + 2 \<le> n"
  shows "JSON_parse s =
     (case parse_value n s of
        None \<Rightarrow> None
      | Some (v, r) \<Rightarrow> if skip_ws r = [] then Some v else None)"
proof -
  obtain k where n: "n = (2 * length s + 2) + k"
    using assms le_Suc_ex by blast
  have "parse_value n s = parse_value (2 * length s + 2) s"
    unfolding n by (rule parse_value_more_fuel) simp
  then show ?thesis by (simp only: JSON_parse_def)
qed

section \<open>Round trip of string quoting\<close>

lemma hex_value_digit_lo:
  assumes "(n::16 word) < 10" shows "hex_value (0x30 + n) = Some n"
proof -
  have u: "unat n < 10" using assms by (simp add: word_less_nat_alt)
  have e: "unat (0x30 + n) = 48 + unat n" using u by (simp add: unat_word_ariths)
  have "0x30 \<le> 0x30 + n" "0x30 + n \<le> 0x39" using u by (simp_all add: word_le_nat_alt e)
  then show ?thesis by (simp add: hex_value_def)
qed

lemma hex_value_digit_hi:
  assumes "\<not> (n::16 word) < 10" "n < 16" shows "hex_value (0x61 + (n - 10)) = Some n"
proof -
  have u: "10 \<le> unat n" "unat n < 16" using assms by (simp_all add: word_less_nat_alt)
  have e: "unat (0x57 + n) = 87 + unat n" using u by (simp add: unat_word_ariths)
  have "0x61 \<le> 0x57 + n" "0x57 + n \<le> 0x66" "\<not> 0x57 + n \<le> 0x39"
    using u by (simp_all add: word_le_nat_alt e)
  then show ?thesis by (simp add: hex_value_def)
qed

lemma hex_value_digit: "n < 16 \<Longrightarrow> hex_value (hex_digit n) = Some n"
  using hex_value_digit_lo [of n] hex_value_digit_hi [of n] by (simp add: hex_digit_def)

lemma and_F_less: "(x :: 16 word) AND 0xF < 16"
  by (rule le_less_trans [OF word_and_le1]) simp

lemma and_F: "(x :: 16 word) AND 0xF = take_bit 4 x"
  by (simp add: take_bit_eq_mask mask_eq_exp_minus_1)

lemma nibbles_join:
  "push_bit 12 (drop_bit 12 c AND 0xF) OR push_bit 8 (drop_bit 8 c AND 0xF) OR
   push_bit 4 (drop_bit 4 c AND 0xF) OR (c AND 0xF) = (c :: 16 word)"
  unfolding and_F
proof (rule bit_word_eqI)
  fix n assume n: "n < LENGTH(16)"
  consider "n < 4" | "4 \<le> n" "n < 8" | "8 \<le> n" "n < 12" | "12 \<le> n" by linarith
  then show "bit (push_bit 12 (take_bit 4 (drop_bit 12 c)) OR push_bit 8 (take_bit 4 (drop_bit 8 c)) OR
                  push_bit 4 (take_bit 4 (drop_bit 4 c)) OR take_bit 4 c) n = bit c n"
    using n by cases (auto simp: bit_simps)
qed

lemma hex4_UnicodeEscape:
  assumes "UnicodeEscape c = [0x5C, 0x75, h1, h2, h3, h4]"
  shows "hex4 h1 h2 h3 h4 = Some c"
proof -
  have h: "h1 = hex_digit (drop_bit 12 c AND 0xF)" "h2 = hex_digit (drop_bit 8 c AND 0xF)"
    "h3 = hex_digit (drop_bit 4 c AND 0xF)" "h4 = hex_digit (c AND 0xF)"
    using assms by (simp_all add: UnicodeEscape_def)
  have "hex4 h1 h2 h3 h4 =
        Some (push_bit 12 (drop_bit 12 c AND 0xF) OR push_bit 8 (drop_bit 8 c AND 0xF) OR
              push_bit 4 (drop_bit 4 c AND 0xF) OR (c AND 0xF))"
    unfolding h hex4_def by (simp only: hex_value_digit [OF and_F_less] option.case)
  then show ?thesis by (simp only: nibbles_join)
qed

lemma parse_string_body_plain:
  "\<not> c < 0x20 \<Longrightarrow> c \<noteq> 0x22 \<Longrightarrow> c \<noteq> 0x5C \<Longrightarrow>
   parse_string_body (c # s) = cons_result c (parse_string_body s)"
  by simp

lemma lead_plain: "is_lead c \<Longrightarrow> \<not> c < 0x20 \<and> c \<noteq> 0x22 \<and> c \<noteq> 0x5C"
  by (auto simp: is_lead_def word_le_nat_alt word_less_nat_alt)

lemma trail_plain: "is_trail c \<Longrightarrow> \<not> c < 0x20 \<and> c \<noteq> 0x22 \<and> c \<noteq> 0x5C"
  by (auto simp: is_trail_def word_le_nat_alt word_less_nat_alt)

lemma parse_quote_unit:
  "parse_string_body (quote_unit c @ s) = cons_result c (parse_string_body s)"
proof (cases "quote_unit c = UnicodeEscape c")
  case True
  then show ?thesis using hex4_UnicodeEscape [of c]
    by (simp add: UnicodeEscape_def)
next
  case False
  then show ?thesis
    by (simp add: quote_unit_def unescape_def split: if_splits)
qed

lemma parse_quote_units:
  "parse_string_body (quote_units t @ 0x22 # r) = Some (t, r)"
proof (induction t rule: quote_units.induct)
  case 1
  then show ?case by simp
next
  case (2 c)
  then show ?case by (simp add: parse_quote_unit cons_result_def)
next
  case (3 c d cs)
  then show ?case
    using lead_plain [of c] trail_plain [of d]
    by (auto simp: parse_quote_unit cons_result_def simp del: parse_string_body.simps
        simp add: parse_string_body_plain)
qed

section \<open>Well-formedness of quoted strings\<close>

lemma well_formed_Cons_plain:
  "\<not> is_lead a \<Longrightarrow> \<not> is_trail a \<Longrightarrow> well_formed (a # s) = well_formed s"
  by (cases s) simp_all

lemma small_plain: "unat a < 200 \<Longrightarrow> \<not> is_lead a \<and> \<not> is_trail a"
  by (simp add: is_lead_def is_trail_def word_le_nat_alt)

lemma hex_digit_small: 
  assumes "n < 16" shows "unat (hex_digit n) < 200"
proof -
  have u: "unat n < 16" using assms by (simp add: word_less_nat_alt)
  show ?thesis
  proof (cases "n < 10")
    case True
    then show ?thesis using u by (simp add: hex_digit_def unat_word_ariths)
  next
    case False
    then have "unat (0x57 + n) = 87 + unat n" using u by (simp add: unat_word_ariths)
    then show ?thesis using False u by (simp add: hex_digit_def)
  qed
qed


lemma well_formed_small: "unat a < 200 \<Longrightarrow> well_formed (a # s) = well_formed s"
  using small_plain [of a] by (simp add: well_formed_Cons_plain del: well_formed.simps)

lemma well_formed_UnicodeEscape: "well_formed (UnicodeEscape c @ s) = well_formed s"
  by (simp add: UnicodeEscape_def well_formed_small hex_digit_small [OF and_F_less]
      del: well_formed.simps)

lemma well_formed_quote_unit: "well_formed (quote_unit c @ s) = well_formed s"
proof (cases "quote_unit c = UnicodeEscape c")
  case True
  then show ?thesis by (simp add: well_formed_UnicodeEscape)
next
  case False
  then show ?thesis
    by (simp add: quote_unit_def well_formed_small well_formed_Cons_plain
        del: well_formed.simps split: if_splits)
qed

lemma well_formed_quote_units: "well_formed (quote_units t @ s) = well_formed s"
proof (induction t rule: quote_units.induct)
  case 1
  then show ?case by simp
next
  case (2 c)
  then show ?case by (simp add: well_formed_quote_unit del: well_formed.simps)
next
  case (3 c d cs)
  then show ?case by (simp add: well_formed_quote_unit del: well_formed.simps) simp
qed

section \<open>Parsing the published payload\<close>

lemma parse_key:
  "parse_string_body (0x6D # 0x65 # 0x73 # 0x73 # 0x61 # 0x67 # 0x65 # 0x22 # r) = Some (js ''message'', r)"
  by (simp add: js_def cons_result_def)

lemma skip_ws_nonws: "\<not> is_ws c \<Longrightarrow> skip_ws (c # s) = c # s"
  by (simp add: skip_ws_def)

lemma parse_value_string:
  "parse_value (Suc k) (0x22 # quote_units t @ 0x22 # r) = Some (JString t, r)"
  by (simp add: skip_ws_nonws is_ws_def parse_quote_units)


lemma parse_members_message:
  "parse_members (Suc (Suc k))
     (0x22 # 0x6D # 0x65 # 0x73 # 0x73 # 0x61 # 0x67 # 0x65 # 0x22 # 0x3A # 0x22 # quote_units t @ [0x22, 0x7D]) =
   Some ([(js ''message'', JString t)], [])"
proof -
  have v: "parse_value (Suc k) (0x22 # quote_units t @ [0x22, 0x7D]) = Some (JString t, [0x7D])"
    using parse_value_string [of k t "[0x7D]"] by simp
  show ?thesis
    by (subst parse_members.simps)
       (simp add: skip_ws_nonws is_ws_def parse_key v del: parse_members.simps parse_value.simps parse_string_body.simps)
qed


lemma message_payload:
  "JSON_stringify (JObject [(js ''message'', JString t)]) =
     [0x7B, 0x22, 0x6D, 0x65, 0x73, 0x73, 0x61, 0x67, 0x65, 0x22, 0x3A, 0x22] @ quote_units t @ [0x22, 0x7D]"
  by (simp add: js_def QuoteJSONString_def quote_unit_def is_lead_def is_trail_def)

lemma parse_message_payload:
  "parse_value (Suc (Suc (Suc k))) (JSON_stringify (JObject [(js ''message'', JString t)])) =
     Some (JObject [(js ''message'', JString t)], [])"
  unfolding message_payload
  by (subst parse_value.simps)
     (simp add: skip_ws_nonws is_ws_def parse_members_message
        del: parse_members.simps parse_value.simps parse_string_body.simps)

lemma fuel3: "1 \<le> length s \<Longrightarrow> \<exists>k. 2 * length s + 2 = Suc (Suc (Suc k))"
  by presburger

lemma JSON_parse_message_payload:
  "JSON_parse (JSON_stringify (JObject [(js ''message'', JString t)])) =
     Some (JObject [(js ''message'', JString t)])"
proof -
  let ?p = "JSON_stringify (JObject [(js ''message'', JString t)])"
  have "1 \<le> length ?p" by (simp add: message_payload)
  then obtain k where "2 * length ?p + 2 = Suc (Suc (Suc k))"
    using fuel3 by blast
  then show ?thesis
    by (simp only: JSON_parse_def parse_message_payload) (simp add: skip_ws_def)
qed

lemma well_formed_message_payload:
  "well_formed (JSON_stringify (JObject [(js ''message'', JString t)]))"
  unfolding message_payload
  by (simp add: well_formed_small well_formed_quote_units del: well_formed.simps) simp

section \<open>The handlers of the socket service\<close>

lemma on_event_message_effects:
  "snd (on_event_message publish_ok t) =
     [ConsoleLog [LString (js ''New Message Received:''), LString t],
      RedisPublish (js ''MESSAGES'') (JSON_stringify (JObject [(js ''message'', JString t)]))]"
  by (simp add: on_event_message_def do_effect_def await_call_def and_then_def)

lemma on_bus_message_valid:
  "JSON_parse raw = Some v \<Longrightarrow>
   on_bus_message (js ''MESSAGES'') raw =
     (Inr (), [ConsoleLog [LString (js ''New message from Redis:''), LString raw],
               IoEmit (js ''message'') v])"
  by (simp add: on_bus_message_def do_effect_def and_then_def)

lemma on_bus_message_malformed:
  "JSON_parse raw = None \<Longrightarrow>
   on_bus_message (js ''MESSAGES'') raw =
     (Inl SyntaxError, [ConsoleLog [LString (js ''New message from Redis:''), LString raw]])"
  by (simp add: on_bus_message_def do_effect_def and_then_def)

text \<open>
  Claim C6. For every client message with text \<open>t\<close>, whether or not the publish
  succeeds, the one payload handed to the Fan-out Bus goes to channel \<open>MESSAGES\<close>
  and is \<open>JSON.stringify\<close> of the object with the single member \<open>message\<close>
  bound to \<open>t\<close>: the text \<open>{"message":"\<close>, the quoted code units of \<open>t\<close>,
  and \<open>"}\<close>. This payload has no unpaired surrogate, so it has a UTF-8 encoding, and
  \<open>JSON.parse\<close> of it yields an object whose \<open>message\<close> field is the string
  \<open>t\<close>.
\<close>

theorem ingress_payload_round_trip:
  "published (snd (on_event_message publish_ok t)) =
     [(js ''MESSAGES'', JSON_stringify (JObject [(js ''message'', JString t)]))] \<and>
   JSON_stringify (JObject [(js ''message'', JString t)]) =
     [0x7B, 0x22, 0x6D, 0x65, 0x73, 0x73, 0x61, 0x67, 0x65, 0x22, 0x3A, 0x22] @ quote_units t @ [0x22, 0x7D] \<and>
   well_formed (JSON_stringify (JObject [(js ''message'', JString t)])) \<and>
   Option.bind (JSON_parse (JSON_stringify (JObject [(js ''message'', JString t)])))
     (get_field (js ''message'')) = Some (JString t)"
proof -
  let ?p = "JSON_stringify (JObject [(js ''message'', JString t)])"
  have 1: "published (snd (on_event_message publish_ok t)) = [(js ''MESSAGES'', ?p)]"
    by (simp only: on_event_message_effects published.simps)
  have "get_field (js ''message'') (JObject [(js ''message'', JString t)]) = Some (JString t)"
    by (simp add: get_field_def)
  then have 2: "Option.bind (JSON_parse ?p) (get_field (js ''message'')) = Some (JString t)"
    by (simp only: JSON_parse_message_payload Option.bind.simps)
  show ?thesis
    using 1 message_payload [of t] well_formed_message_payload [of t] 2 by blast
qed

theorem ingress_payload_round_trip_witness:
  "JSON_stringify (JObject [(js ''message'', JString (js ''hi''))]) =
     [0x7B, 0x22, 0x6D, 0x65, 0x73, 0x73, 0x61, 0x67, 0x65, 0x22, 0x3A, 0x22, 0x68, 0x69, 0x22, 0x7D] \<and>
   Option.bind (JSON_parse (JSON_stringify (JObject [(js ''message'', JString (js ''hi''))])))
     (get_field (js ''message'')) = Some (JString (js ''hi''))"
  using ingress_payload_round_trip [of True "js ''hi''"]
  by (simp add: js_def QuoteJSONString_def quote_unit_def is_lead_def is_trail_def)

lemma on_bus_message_other_channel:
  "channel \<noteq> js ''MESSAGES'' \<Longrightarrow> on_bus_message channel raw = (Inr (), [])"
  by (simp add: on_bus_message_def)

lemma JSON_parse_not_json: "JSON_parse (js ''not json'') = None"
  by code_simp

lemma JSON_parse_hi: "JSON_parse (js ''{ \"message\" : \"hi\" }'') = Some (JObject [(js ''message'', JString (js ''hi''))])"
  by code_simp

text \<open>
  Claim C4, as stated, fails: for the payload \<open>not json\<close> on channel
  \<open>MESSAGES\<close> the callback does not complete normally. \<open>JSON.parse\<close> throws a
  SyntaxError, nothing in the callback catches it, and the promise of the async callback
  rejects with it.
\<close>

theorem bus_callback_rejects_malformed:
  "fst (on_bus_message (js ''MESSAGES'') (js ''not json'')) = Inl SyntaxError"
  by (simp add: on_bus_message_malformed [OF JSON_parse_not_json])

text \<open>
  Claim C4, amended. For every raw payload delivered to the callback on channel
  \<open>MESSAGES\<close>: a malformed payload is logged (the raw text), no emission to clients
  occurs for it, and the callback fails with the SyntaxError of \<open>JSON.parse\<close>; a
  payload that parses is emitted to every connected client and the callback completes
  normally.
\<close>

theorem bus_callback_outcome:
  "(JSON_parse raw = None \<longrightarrow>
      fst (on_bus_message (js ''MESSAGES'') raw) = Inl SyntaxError \<and>
      snd (on_bus_message (js ''MESSAGES'') raw) =
        [ConsoleLog [LString (js ''New message from Redis:''), LString raw]] \<and>
      client_receives clients (snd (on_bus_message (js ''MESSAGES'') raw)) = []) \<and>
   (\<forall>v. JSON_parse raw = Some v \<longrightarrow>
      fst (on_bus_message (js ''MESSAGES'') raw) = Inr () \<and>
      client_receives clients (snd (on_bus_message (js ''MESSAGES'') raw)) =
        map (\<lambda>c. (c, js ''message'', v)) clients)"
  by (simp add: on_bus_message_malformed on_bus_message_valid)

theorem bus_callback_outcome_witness:
  "JSON_parse (js ''not json'') = None \<and>
   fst (on_bus_message (js ''MESSAGES'') (js ''not json'')) = Inl SyntaxError \<and>
   client_receives [1, 2] (snd (on_bus_message (js ''MESSAGES'') (js ''not json''))) = [] \<and>
   JSON_parse (js ''{ \"message\" : \"hi\" }'') = Some (JObject [(js ''message'', JString (js ''hi''))]) \<and>
   fst (on_bus_message (js ''MESSAGES'') (js ''{ \"message\" : \"hi\" }'')) = Inr () \<and>
   client_receives [1, 2] (snd (on_bus_message (js ''MESSAGES'') (js ''{ \"message\" : \"hi\" }''))) =
     [(1, js ''message'', JObject [(js ''message'', JString (js ''hi''))]),
      (2, js ''message'', JObject [(js ''message'', JString (js ''hi''))])]"
  using bus_callback_outcome [of "js ''not json''" "[1, 2]"]
    bus_callback_outcome [of "js ''{ \"message\" : \"hi\" }''" "[1, 2]"]
    JSON_parse_not_json JSON_parse_hi
  by simp

lemma bus_deliveries_single:
  "JSON_parse p = Some v \<Longrightarrow>
   bus_deliveries clients [(js ''MESSAGES'', p)] = map (\<lambda>c. (c, js ''message'', v)) clients"
  by (simp add: bus_deliveries_def on_bus_message_valid)

text \<open>
  Claim C5. Every payload received on channel \<open>MESSAGES\<close> that parses is emitted
  as event \<open>message\<close> to every socket connected to the instance, once per
  delivery (the same payload delivered twice is emitted twice: nothing is deduplicated).
  The \<open>event:message\<close> handler itself emits nothing to any client, so there is no
  local echo. In a cluster, what the clients of any instance \<open>j\<close> receive for a
  message submitted at instance \<open>i\<close> is exactly one \<open>message\<close> event carrying
  \<open>{message: t}\<close> each, also when \<open>j = i\<close>.
\<close>

theorem broadcast_reaches_every_local_client:
  "(\<forall>v. JSON_parse raw = Some v \<longrightarrow>
      client_receives clients (snd (on_bus_message (js ''MESSAGES'') raw)) =
        map (\<lambda>c. (c, js ''message'', v)) clients \<and>
      bus_deliveries clients [(js ''MESSAGES'', raw), (js ''MESSAGES'', raw)] =
        map (\<lambda>c. (c, js ''message'', v)) clients @ map (\<lambda>c. (c, js ''message'', v)) clients) \<and>
   client_receives clients (snd (on_event_message publish_ok t)) = [] \<and>
   (i < length cluster \<and> j < length cluster \<longrightarrow>
      fan_out cluster i t j =
        map (\<lambda>c. (c, js ''message'', JObject [(js ''message'', JString t)])) (cluster ! j))"
proof -
  have 1: "client_receives clients (snd (on_event_message publish_ok t)) = []" for clients publish_ok
    by (simp add: on_event_message_effects)
  have 2: "fan_out cluster i t j =
     map (\<lambda>c. (c, js ''message'', JObject [(js ''message'', JString t)])) (cluster ! j)"
    by (simp add: fan_out_def 1 on_event_message_effects
        bus_deliveries_single [OF JSON_parse_message_payload] del: JSON_stringify.simps)
  show ?thesis
    using 1 2 by (simp add: on_bus_message_valid bus_deliveries_def)
qed

theorem broadcast_reaches_every_local_client_witness:
  "JSON_parse (js ''{ \"message\" : \"hi\" }'') = Some (JObject [(js ''message'', JString (js ''hi''))]) \<and>
   client_receives [7, 8] (snd (on_bus_message (js ''MESSAGES'') (js ''{ \"message\" : \"hi\" }''))) =
     [(7, js ''message'', JObject [(js ''message'', JString (js ''hi''))]),
      (8, js ''message'', JObject [(js ''message'', JString (js ''hi''))])] \<and>
   fan_out [[7, 8], [9]] 0 (js ''hi'') 0 =
     [(7, js ''message'', JObject [(js ''message'', JString (js ''hi''))]),
      (8, js ''message'', JObject [(js ''message'', JString (js ''hi''))])] \<and>
   fan_out [[7, 8], [9]] 0 (js ''hi'') 1 =
     [(9, js ''message'', JObject [(js ''message'', JString (js ''hi''))])]"
  using broadcast_reaches_every_local_client [where raw = "js ''{ \"message\" : \"hi\" }''"
      and clients = "[7, 8]" and publish_ok = True and t = "js ''hi''"
      and cluster = "[[7, 8], [9]]" and i = 0 and j = 0]
    broadcast_reaches_every_local_client [where raw = "js ''{ \"message\" : \"hi\" }''"
      and clients = "[7, 8]" and publish_ok = True and t = "js ''hi''"
      and cluster = "[[7, 8], [9]]" and i = 0 and j = 1]
    JSON_parse_hi
  by simp

text \<open>
  Claim C1 on the code: for the client message \<open>hello\<close> the \<open>event:message\<close>
  handler logs and publishes to the Fan-out Bus channel \<open>MESSAGES\<close>, and that is
  all: among its effects there is no append to the Durable Log.
\<close>

theorem ingress_never_appends_to_log:
  "snd (on_event_message True (js ''hello'')) =
     [ConsoleLog [LString (js ''New Message Received:''), LString (js ''hello'')],
      RedisPublish (js ''MESSAGES'') (js ''{\"message\":\"hello\"}'')] \<and>
   appended (snd (on_event_message True (js ''hello''))) = []"
  by (simp add: on_event_message_effects)
     (simp add: js_def QuoteJSONString_def quote_unit_def is_lead_def is_trail_def)

section \<open>The producer and the memoized clients\<close>

lemma createProducer_cached:
  "producer m = Some p \<Longrightarrow> createProducer connect_ok m = (Inr p, m, [])"
  by (simp add: createProducer_def)

lemma createProducer_first:
  "producer m = None \<Longrightarrow>
   createProducer True m =
     (Inr (created m), m\<lparr>created := Suc (created m), producer := Some (created m)\<rparr>,
      [ProducerCreate (created m), ProducerConnect (created m)])"
  by (simp add: createProducer_def Let_def)

lemma createProducer_result:
  "fst (createProducer connect_ok m) = Inr p \<Longrightarrow>
   producer (fst (snd (createProducer connect_ok m))) = Some p"
  by (auto simp: createProducer_def Let_def split: option.splits if_splits)

lemma createConsumer_cached:
  "consumer m = Some c \<Longrightarrow> createConsumer connect_ok groupId m = (Inr c, m, [])"
  by (simp add: createConsumer_def)

lemma createConsumer_first:
  "consumer m = None \<Longrightarrow>
   createConsumer True groupId m =
     (Inr (created m), m\<lparr>created := Suc (created m), consumer := Some (created m)\<rparr>,
      [ConsumerCreate (created m) groupId, ConsumerConnect (created m)])"
  by (simp add: createConsumer_def Let_def)

lemma createConsumer_result:
  "fst (createConsumer connect_ok groupId m) = Inr c \<Longrightarrow>
   consumer (fst (snd (createConsumer connect_ok groupId m))) = Some c"
  by (auto simp: createConsumer_def Let_def split: option.splits if_splits)

lemma createProducer_phases:
  "createProducer connect_ok m =
     (case createProducer_enter m of
        (Returned p, m1, fx) \<Rightarrow> (Inr p, m1, fx)
      | (Awaiting p, m1, fx) \<Rightarrow>
          (case createProducer_resume connect_ok p m1 of (r, m2) \<Rightarrow> (r, m2, fx)))"
  by (cases "producer m")
     (simp_all add: createProducer_def createProducer_enter_def createProducer_resume_def Let_def)

lemma createConsumer_phases:
  "createConsumer connect_ok groupId m =
     (case createConsumer_enter groupId m of
        (Returned c, m1, fx) \<Rightarrow> (Inr c, m1, fx)
      | (Awaiting c, m1, fx) \<Rightarrow>
          (case createConsumer_resume connect_ok c m1 of (r, m2) \<Rightarrow> (r, m2, fx)))"
  by (cases "consumer m")
     (simp_all add: createConsumer_def createConsumer_enter_def createConsumer_resume_def Let_def)

lemma createProducer_calls_cached:
  "producer m = Some p \<Longrightarrow>
   createProducer_calls oks m = (replicate (length oks) (Inr p), m, [])"
  by (induction oks) (simp_all add: createProducer_cached)

lemma createConsumer_calls_cached:
  "consumer m = Some c \<Longrightarrow>
   createConsumer_calls cs m = (replicate (length cs) (Inr c), m, [])"
proof (induction cs)
  case Nil
  then show ?case by simp
next
  case (Cons a cs)
  obtain ok g where a: "a = (ok, g)" by (cases a)
  show ?case using Cons by (simp add: a createConsumer_cached)
qed

text \<open>
  Claim C9, as stated, fails. A second call of \<open>createProducer\<close> entered while the
  first still awaits its connect finds the module variable \<open>null\<close>: it creates and
  connects a second client, and when both connects have settled the two calls have
  returned different clients. The same happens with \<open>createConsumer\<close>. And a first
  call whose connect fails caches nothing.
\<close>

theorem overlapping_calls_create_two_clients:
  "createProducer_enter initial_module =
     (Awaiting 0, \<lparr>producer = None, consumer = None, created = 1\<rparr>,
      [ProducerCreate 0, ProducerConnect 0]) \<and>
   createProducer_enter \<lparr>producer = None, consumer = None, created = 1\<rparr> =
     (Awaiting 1, \<lparr>producer = None, consumer = None, created = 2\<rparr>,
      [ProducerCreate 1, ProducerConnect 1]) \<and>
   createProducer_resume True 0 \<lparr>producer = None, consumer = None, created = 2\<rparr> =
     (Inr 0, \<lparr>producer = Some 0, consumer = None, created = 2\<rparr>) \<and>
   createProducer_resume True 1 \<lparr>producer = Some 0, consumer = None, created = 2\<rparr> =
     (Inr 1, \<lparr>producer = Some 1, consumer = None, created = 2\<rparr>) \<and>
   createProducer False initial_module =
     (Inl KafkaConnectError, \<lparr>producer = None, consumer = None, created = 1\<rparr>,
      [ProducerCreate 0, ProducerConnect 0]) \<and>
   createConsumer_enter (js ''a'') initial_module =
     (Awaiting 0, \<lparr>producer = None, consumer = None, created = 1\<rparr>,
      [ConsumerCreate 0 (js ''a''), ConsumerConnect 0]) \<and>
   createConsumer_enter (js ''a'') \<lparr>producer = None, consumer = None, created = 1\<rparr> =
     (Awaiting 1, \<lparr>producer = None, consumer = None, created = 2\<rparr>,
      [ConsumerCreate 1 (js ''a''), ConsumerConnect 1])"
  by (simp add: createProducer_enter_def createProducer_resume_def createProducer_def
      createConsumer_enter_def initial_module_def Let_def)

text \<open>
  Claim C9, amended, for calls that do not overlap. With no cached client,
  \<open>createProducer\<close> (its connect succeeding) creates a client, connects it and
  caches it. Once a call of \<open>createProducer\<close> has returned a client \<open>p\<close>,
  every call of any sequence of following calls returns the same \<open>p\<close>, with the
  module state unchanged and without creating or connecting anything. The same holds for
  \<open>createConsumer\<close>, whatever group ids the following calls pass.
\<close>

theorem create_client_memoized:
  "(producer m = None \<longrightarrow>
      createProducer True m =
        (Inr (created m), m\<lparr>created := Suc (created m), producer := Some (created m)\<rparr>,
         [ProducerCreate (created m), ProducerConnect (created m)])) \<and>
   (fst (createProducer ok1 m) = Inr p \<longrightarrow>
      createProducer_calls oks (fst (snd (createProducer ok1 m))) =
        (replicate (length oks) (Inr p), fst (snd (createProducer ok1 m)), [])) \<and>
   (consumer m = None \<longrightarrow>
      createConsumer True g1 m =
        (Inr (created m), m\<lparr>created := Suc (created m), consumer := Some (created m)\<rparr>,
         [ConsumerCreate (created m) g1, ConsumerConnect (created m)])) \<and>
   (fst (createConsumer ok1 g1 m) = Inr c \<longrightarrow>
      createConsumer_calls cs (fst (snd (createConsumer ok1 g1 m))) =
        (replicate (length cs) (Inr c), fst (snd (createConsumer ok1 g1 m)), []))"
proof (intro conjI impI)
  assume "producer m = None"
  then show "createProducer True m =
        (Inr (created m), m\<lparr>created := Suc (created m), producer := Some (created m)\<rparr>,
         [ProducerCreate (created m), ProducerConnect (created m)])"
    by (rule createProducer_first)
next
  assume "fst (createProducer ok1 m) = Inr p"
  then have "producer (fst (snd (createProducer ok1 m))) = Some p"
    by (rule createProducer_result)
  then show "createProducer_calls oks (fst (snd (createProducer ok1 m))) =
        (replicate (length oks) (Inr p), fst (snd (createProducer ok1 m)), [])"
    by (rule createProducer_calls_cached)
next
  assume "consumer m = None"
  then show "createConsumer True g1 m =
        (Inr (created m), m\<lparr>created := Suc (created m), consumer := Some (created m)\<rparr>,
         [ConsumerCreate (created m) g1, ConsumerConnect (created m)])"
    by (rule createConsumer_first)
next
  assume "fst (createConsumer ok1 g1 m) = Inr c"
  then have "consumer (fst (snd (createConsumer ok1 g1 m))) = Some c"
    by (rule createConsumer_result)
  then show "createConsumer_calls cs (fst (snd (createConsumer ok1 g1 m))) =
        (replicate (length cs) (Inr c), fst (snd (createConsumer ok1 g1 m)), [])"
    by (rule createConsumer_calls_cached)
qed

theorem create_client_memoized_witness:
  "createProducer True initial_module =
     (Inr 0, \<lparr>producer = Some 0, consumer = None, created = 1\<rparr>, [ProducerCreate 0, ProducerConnect 0]) \<and>
   createProducer_calls [True, False] \<lparr>producer = Some 0, consumer = None, created = 1\<rparr> =
     ([Inr 0, Inr 0], \<lparr>producer = Some 0, consumer = None, created = 1\<rparr>, []) \<and>
   createConsumer True (js ''a'') initial_module =
     (Inr 0, \<lparr>producer = None, consumer = Some 0, created = 1\<rparr>,
      [ConsumerCreate 0 (js ''a''), ConsumerConnect 0]) \<and>
   createConsumer_calls [(True, js ''b''), (False, js ''a'')]
       \<lparr>producer = None, consumer = Some 0, created = 1\<rparr> =
     ([Inr 0, Inr 0], \<lparr>producer = None, consumer = Some 0, created = 1\<rparr>, [])"
proof -
  note t = create_client_memoized [where m = initial_module and ?ok1.0 = True and p = 0
      and oks = "[True, False]" and ?g1.0 = "js ''a''" and c = 0
      and cs = "[(True, js ''b''), (False, js ''a'')]"]
  have p: "producer initial_module = None" and c: "consumer initial_module = None"
    by (simp_all add: initial_module_def)
  have 1: "createProducer True initial_module =
     (Inr 0, \<lparr>producer = Some 0, consumer = None, created = 1\<rparr>, [ProducerCreate 0, ProducerConnect 0])"
    using t p by (simp add: initial_module_def)
  have 2: "createConsumer True (js ''a'') initial_module =
     (Inr 0, \<lparr>producer = None, consumer = Some 0, created = 1\<rparr>,
      [ConsumerCreate 0 (js ''a''), ConsumerConnect 0])"
    using t c by (simp add: initial_module_def)
  show ?thesis
    using t 1 2 by simp
qed

lemma createProducer_effects:
  "snd (snd (createProducer connect_ok m)) =
     (if producer m = None then [ProducerCreate (created m), ProducerConnect (created m)] else [])"
  by (cases "producer m") (simp_all add: createProducer_def Let_def)

lemma createProducer_fst:
  "fst (createProducer connect_ok m) =
     (case producer m of Some p \<Rightarrow> Inr p
      | None \<Rightarrow> if connect_ok then Inr (created m) else Inl KafkaConnectError)"
  by (cases "producer m") (simp_all add: createProducer_def Let_def)

lemma number_to_string_example: "number_to_string 1730500000000 = js ''1730500000000''"
  by (simp add: number_to_string_def digits_acc.simps js_def)


lemma produceMessage_appended:
  "appended (snd (snd (produceMessage connect_ok send_ok now message m))) =
     (if connect_ok \<or> producer m \<noteq> None
      then [(js ''MESSAGES'', js ''message-'' @ number_to_string now, message)] else [])"
  by (cases "producer m"; cases connect_ok; cases send_ok)
     (simp_all add: produceMessage_def createProducer_def Let_def)

lemma produceMessage_result:
  "fst (produceMessage connect_ok send_ok now message m) =
     (if connect_ok \<or> producer m \<noteq> None
      then (if send_ok then Inr True else Inl KafkaSendError) else Inl KafkaConnectError)"
  by (cases "producer m"; cases connect_ok; cases send_ok)
     (simp_all add: produceMessage_def createProducer_def Let_def)

text \<open>
  Claim C7. Every append that \<open>produceMessage\<close> performs goes to topic
  \<open>MESSAGES\<close>, with key \<open>message-\<close> followed by the decimal digits of
  \<open>Date.now()\<close> (digits only, denoting that number) and the message as value; when
  a producer is available (cached, or connected now) and the send succeeds, there is
  exactly one such append and the result is \<open>true\<close>.
\<close>

theorem produceMessage_append_shape:
  "(\<forall>a \<in> set (appended (snd (snd (produceMessage connect_ok send_ok now message m)))).
      a = (js ''MESSAGES'', js ''message-'' @ number_to_string now, message)) \<and>
   ((connect_ok \<or> producer m \<noteq> None) \<and> send_ok \<longrightarrow>
      fst (produceMessage connect_ok send_ok now message m) = Inr True \<and>
      appended (snd (snd (produceMessage connect_ok send_ok now message m))) =
        [(js ''MESSAGES'', js ''message-'' @ number_to_string now, message)]) \<and>
   list_all is_digit (number_to_string now) \<and> decimal_value (number_to_string now) = now"
  by (simp add: produceMessage_appended produceMessage_result number_to_string_decimal)

theorem produceMessage_append_shape_witness:
  "fst (produceMessage True True 1730500000000 (js ''hello'') initial_module) = Inr True \<and>
   appended (snd (snd (produceMessage True True 1730500000000 (js ''hello'') initial_module))) =
     [(js ''MESSAGES'', js ''message-1730500000000'', js ''hello'')]"
proof -
  note t = produceMessage_append_shape [of True True 1730500000000 "js ''hello''" initial_module]
  have e: "js ''message-1730500000000'' = js ''message-'' @ js ''1730500000000''"
    by (simp add: js_def)
  from t have "fst (produceMessage True True 1730500000000 (js ''hello'') initial_module) = Inr True \<and>
      appended (snd (snd (produceMessage True True 1730500000000 (js ''hello'') initial_module))) =
        [(js ''MESSAGES'', js ''message-'' @ number_to_string 1730500000000, js ''hello'')]"
    by blast
  then show ?thesis
    by (simp only: e number_to_string_example)
qed

section \<open>The persistence consumer\<close>

lemma eachMessage_null:
  "msg_value (each_message p) = None \<Longrightarrow> eachMessage c store_ok p = (Inr (), [received_log p])"
  by (simp add: eachMessage_def received_log_def do_effect_def and_then_def)

lemma eachMessage_saved:
  "msg_value (each_message p) = Some v \<Longrightarrow>
   eachMessage c True p =
     (Inr (), [received_log p, StoreCreate v True,
               ConsoleLog [LString (js ''Message saved to database:''), LString v]])"
  by (simp add: eachMessage_def received_log_def do_effect_def await_call_def and_then_def
      try_catch_def)

lemma eachMessage_failed:
  "msg_value (each_message p) = Some v \<Longrightarrow>
   eachMessage c False p =
     (Inr (), [received_log p, StoreCreate v False,
               ConsoleError [LString (js ''Error saving message to database:''), LError StoreError],
               ConsoleLog [LString (js ''Pausing consumer for 1 minute...'')],
               ConsumerPause c [(js ''MESSAGES'', None)],
               SetTimeout 60000 (resume_callback c)])"
  by (simp add: eachMessage_def received_log_def resume_callback_def do_effect_def
      await_call_def and_then_def try_catch_def)

lemma eachMessage_resolves: "fst (eachMessage c store_ok p) = Inr ()"
  by (cases "msg_value (each_message p)"; cases store_ok)
     (simp_all add: eachMessage_null eachMessage_saved eachMessage_failed)


lemma apply_received_log: "apply_effect (received_log p) w = w"
  by (simp add: received_log_def)

lemma deliver_not_deliverable: "\<not> deliverable w p \<Longrightarrow> deliver p store_ok w = w"
  by (simp add: deliver_def split: option.splits)

lemma deliverable_consumer: "deliverable w p \<Longrightarrow> \<exists>c. consumer (kafka w) = Some c"
  by (simp add: deliverable_def)

lemma deliver_null:
  assumes "deliverable w p" "partitions w ! p ! (cursor w ! p) = None"
  shows "deliver p store_ok w = w\<lparr>cursor := (cursor w)[p := Suc (cursor w ! p)]\<rparr>"
proof -
  obtain c where c: "consumer (kafka w) = Some c"
    using deliverable_consumer [OF assms(1)] by blast
  show ?thesis
    using assms by (simp add: deliver_def c eachMessage_null Let_def apply_received_log)
qed

lemma deliver_saved:
  assumes "deliverable w p" "partitions w ! p ! (cursor w ! p) = Some v"
  shows "deliver p True w =
     w\<lparr>store := store w @ [v], cursor := (cursor w)[p := Suc (cursor w ! p)]\<rparr>"
proof -
  obtain c where c: "consumer (kafka w) = Some c"
    using deliverable_consumer [OF assms(1)] by blast
  show ?thesis
    using assms by (simp add: deliver_def c eachMessage_saved Let_def apply_received_log)
qed

lemma deliver_failed:
  assumes "deliverable w p" "partitions w ! p ! (cursor w ! p) = Some v"
    "consumer (kafka w) = Some c"
  shows "deliver p False w =
     w\<lparr>paused := paused w @ [(js ''MESSAGES'', None)],
       timers := timers w @ [resume_callback c],
       cursor := (cursor w)[p := Suc (cursor w ! p)]\<rparr>"
  using assms by (simp add: deliver_def eachMessage_failed Let_def apply_received_log)


lemma process_start_eq:
  "process_start log_parts offsets rows =
     \<lparr>kafka = \<lparr>producer = None, consumer = Some 0, created = 1\<rparr>, paused = [], timers = [],
      partitions = log_parts, cursor = offsets, store = rows\<rparr>"
  by (simp add: process_start_def startMessageConsumer_def createConsumer_def initial_module_def
      Let_def)

lemma step_keeps_quiet:
  assumes "paused w = []" "timers w = []" "\<not> store_failure ev"
  shows "paused (step w ev) = [] \<and> timers (step w ev) = []"
proof (cases ev)
  case (Deliver p ok)
  then have ok: "ok" using assms(3) by (simp add: store_failure_def)
  show ?thesis
  proof (cases "deliverable w p")
    case False
    then show ?thesis using assms Deliver by (simp add: deliver_not_deliverable)
  next
    case True
    then show ?thesis
      using assms Deliver ok
      by (cases "partitions w ! p ! (cursor w ! p)") (simp_all add: deliver_null deliver_saved)
  qed
next
  case TimerFires
  then show ?thesis using assms by (simp add: timer_fires_def)
qed

lemma run_keeps_quiet:
  "paused w = [] \<Longrightarrow> timers w = [] \<Longrightarrow> \<forall>ev \<in> set evs. \<not> store_failure ev \<Longrightarrow>
   paused (run w evs) = [] \<and> timers (run w evs) = []"
proof (induction evs arbitrary: w)
  case Nil
  then show ?case by (simp add: run_def)
next
  case (Cons ev evs)
  have "paused (step w ev) = [] \<and> timers (step w ev) = []"
    using Cons.prems by (intro step_keeps_quiet) simp_all
  then have "paused (run (step w ev) evs) = [] \<and> timers (run (step w ev) evs) = []"
    using Cons.prems by (intro Cons.IH) simp_all
  then show ?case by (simp add: run_def)
qed

lemmas world_eval =
  run_def process_start_eq deliver_def deliverable_def is_paused_def directive_covers_def
  eachMessage_null eachMessage_saved eachMessage_failed apply_received_log
  timer_fires_def resume_callback_def Let_def

text \<open>
  Claim C8. Whatever state a process was in, the process started after it has no pause
  directive in force and no resume timer pending. From a process start on, as long as no
  store write has failed, no pause directive is in force: no partition of topic
  \<open>MESSAGES\<close> is paused.
\<close>

theorem consumer_starts_running:
  "paused (restart w) = [] \<and> timers (restart w) = [] \<and>
   ((\<forall>ev \<in> set evs. \<not> store_failure ev) \<longrightarrow>
      paused (run (process_start log_parts offsets rows) evs) = [] \<and>
      \<not> is_paused (paused (run (process_start log_parts offsets rows) evs)) (js ''MESSAGES'') q)"
proof -
  have s: "paused (process_start l c r) = [] \<and> timers (process_start l c r) = []" for l c r
    by (simp add: process_start_eq)
  have "paused (run (process_start log_parts offsets rows) evs) = []"
    if "\<forall>ev \<in> set evs. \<not> store_failure ev"
    using run_keeps_quiet [of "process_start log_parts offsets rows" evs] s that by blast
  then show ?thesis
    using s by (auto simp: restart_def is_paused_def)
qed

theorem consumer_starts_running_witness:
  "paused (run (process_start [[Some (js ''x'')]] [0] []) [Deliver 0 False]) = [(js ''MESSAGES'', None)] \<and>
   paused (restart (run (process_start [[Some (js ''x'')]] [0] []) [Deliver 0 False])) = [] \<and>
   \<not> store_failure (Deliver 0 True) \<and>
   paused (run (process_start [[Some (js ''x'')]] [0] []) [Deliver 0 True]) = [] \<and>
   store (run (process_start [[Some (js ''x'')]] [0] []) [Deliver 0 True]) = [js ''x'']"
  using consumer_starts_running [where w = "run (process_start [[Some (js ''x'')]] [0] []) [Deliver 0 False]"
      and evs = "[Deliver 0 True]" and log_parts = "[[Some (js ''x'')]]" and offsets = "[0]"
      and rows = "[]" and q = 0]
  by (simp add: world_eval store_failure_def)

text \<open>
  Claim C2 on the code. The log holds \<open>x\<close> at offset 0 and \<open>y\<close> at offset 1 of
  one partition. The store write for \<open>x\<close> fails: \<open>eachMessage\<close> catches the
  error, pauses, sets the timer and resolves, so the log client counts offset 0 as
  processed and the next offset is 1. After the timer has fired the message delivered is
  \<open>y\<close>; in the end the store holds \<open>y\<close> only, and \<open>x\<close> was never retried.
\<close>

theorem failed_message_is_skipped:
  "cursor (run (process_start [[Some (js ''x''), Some (js ''y'')]] [0] []) [Deliver 0 False]) = [1] \<and>
   store (run (process_start [[Some (js ''x''), Some (js ''y'')]] [0] [])
            [Deliver 0 False, TimerFires, Deliver 0 True, Deliver 0 True]) = [js ''y''] \<and>
   cursor (run (process_start [[Some (js ''x''), Some (js ''y'')]] [0] [])
            [Deliver 0 False, TimerFires, Deliver 0 True, Deliver 0 True]) = [2]"
  by (simp add: world_eval)







text \<open>
  Claim C10, as stated, fails for an empty value: the guard tests the buffer object, which
  is truthy also when it is empty, so a row with the empty text is written to the store.
\<close>

theorem empty_value_is_written:
  "store (deliver 0 True (process_start [[Some []]] [0] [])) = [[]] \<and>
   StoreCreate [] True \<in> set (snd (eachMessage 0 True
     \<lparr>each_topic = js ''MESSAGES'', each_partition = 0,
      each_message = \<lparr>msg_offset = 0, msg_value = Some []\<rparr>\<rparr>))"
  by (simp add: world_eval)

text \<open>
  Claim C10, amended. For a message whose value is \<open>null\<close> the handler only logs
  and resolves: no store write, no error, no pause, no timer; the world changes by the
  next offset alone, so the consumer goes on to the next message. For every value that is
  not \<open>null\<close>, the empty one included, a store write of its text is attempted.
\<close>

theorem null_value_is_skipped:
  "(msg_value (each_message p) = None \<longrightarrow>
      fst (eachMessage c store_ok p) = Inr () \<and>
      (\<forall>e \<in> set (snd (eachMessage c store_ok p)). \<exists>args. e = ConsoleLog args)) \<and>
   (deliverable w q \<and> partitions w ! q ! (cursor w ! q) = None \<longrightarrow>
      deliver q store_ok w = w\<lparr>cursor := (cursor w)[q := Suc (cursor w ! q)]\<rparr>) \<and>
   (\<forall>v. msg_value (each_message p) = Some v \<longrightarrow>
      StoreCreate v store_ok \<in> set (snd (eachMessage c store_ok p)))"
proof (intro conjI impI allI)
  assume "msg_value (each_message p) = None"
  then show "fst (eachMessage c store_ok p) = Inr ()"
    and "\<forall>e \<in> set (snd (eachMessage c store_ok p)). \<exists>args. e = ConsoleLog args"
    by (simp_all add: eachMessage_null received_log_def)
next
  assume "deliverable w q \<and> partitions w ! q ! (cursor w ! q) = None"
  then show "deliver q store_ok w = w\<lparr>cursor := (cursor w)[q := Suc (cursor w ! q)]\<rparr>"
    by (simp add: deliver_null)
next
  fix v assume "msg_value (each_message p) = Some v"
  then show "StoreCreate v store_ok \<in> set (snd (eachMessage c store_ok p))"
    by (cases store_ok) (simp_all add: eachMessage_saved eachMessage_failed)
qed

theorem null_value_is_skipped_witness:
  "eachMessage 0 False
     \<lparr>each_topic = js ''MESSAGES'', each_partition = 0,
      each_message = \<lparr>msg_offset = 0, msg_value = None\<rparr>\<rparr> =
     (Inr (), [ConsoleLog [LString (js ''Kafka message received:''),
        LObject [(''partition'', LNumber 0), (''offset'', LNumber 0), (''value'', LUndefined)]]]) \<and>
   deliver 0 False (process_start [[None, Some (js ''y'')]] [0] []) =
     (process_start [[None, Some (js ''y'')]] [0] [])\<lparr>cursor := [1]\<rparr> \<and>
   StoreCreate (js ''y'') True \<in> set (snd (eachMessage 0 True
     \<lparr>each_topic = js ''MESSAGES'', each_partition = 0,
      each_message = \<lparr>msg_offset = 1, msg_value = Some (js ''y'')\<rparr>\<rparr>))"
proof -
  let ?w = "process_start [[None, Some (js ''y'')]] [0] []"
  let ?n = "\<lparr>each_topic = js ''MESSAGES'', each_partition = 0,
      each_message = \<lparr>msg_offset = 0, msg_value = None\<rparr>\<rparr>"
  let ?y = "\<lparr>each_topic = js ''MESSAGES'', each_partition = 0,
      each_message = \<lparr>msg_offset = 1, msg_value = Some (js ''y'')\<rparr>\<rparr>"
  have h: "deliverable ?w 0 \<and> partitions ?w ! 0 ! (cursor ?w ! 0) = None"
    by (simp add: world_eval)
  have c: "(cursor ?w)[0 := Suc (cursor ?w ! 0)] = [1]"
    by (simp add: process_start_eq)
  have 1: "eachMessage 0 False ?n =
     (Inr (), [ConsoleLog [LString (js ''Kafka message received:''),
        LObject [(''partition'', LNumber 0), (''offset'', LNumber 0), (''value'', LUndefined)]]])"
    by (simp add: eachMessage_null received_log_def)
  have 2: "deliver 0 False ?w = ?w\<lparr>cursor := [1]\<rparr>"
    using null_value_is_skipped [where p = ?n and c = 0 and store_ok = False and w = ?w and q = 0] h c
    by simp
  have 3: "StoreCreate (js ''y'') True \<in> set (snd (eachMessage 0 True ?y))"
    using null_value_is_skipped [where p = ?y and c = 0 and store_ok = True and w = ?w and q = 0]
    by simp
  show ?thesis using 1 2 3 by blast
qed

end
